theory Spec2Isabelle
  imports Main "HOL-Library.Sublist" "HOL-Library.List_Lexorder"
begin

section \<open>Python strings\<close>

text \<open>
  A Python \<open>str\<close> is a sequence of Unicode code points and \<open>len\<close> counts code points, so
  a string is modelled as a list of code points. ASCII literals are written through \<open>u\<close>;
  the CJK literals of the source are written as lists of code points.
\<close>

type_synonym uchar = nat
type_synonym ustring = "nat list"

definition u :: "string \<Rightarrow> ustring" where
  "u s = map of_char s"

text \<open>
  The Unicode character database belongs to the Python runtime, not to the repository.
  For ASCII characters the classes and case mappings are written out below; for every
  other code point they are taken from this record, and every theorem holds for any
  value of it. \<open>str.upper\<close> maps each character on its own (to one or more characters);
  \<open>str.lower\<close> is context sensitive outside ASCII, so there the whole string is handed over.
\<close>

record unidata =
  uni_alnum :: "uchar \<Rightarrow> bool"
  uni_decimal :: "uchar \<Rightarrow> bool"
  uni_upper :: "uchar \<Rightarrow> ustring"
  uni_lower :: "ustring \<Rightarrow> ustring"

text \<open>A database that knows no character outside ASCII, used to evaluate ASCII inputs.\<close>

definition ascii_db :: unidata where
  "ascii_db = \<lparr>uni_alnum = (\<lambda>c. False), uni_decimal = (\<lambda>c. False),
               uni_upper = (\<lambda>c. [c]), uni_lower = (\<lambda>s. s)\<rparr>"

text \<open>
  \<open>str.isspace\<close>, which is also the class \<open>\s\<close> of \<open>re\<close> on \<open>str\<close> patterns and the set that
  \<open>str.strip()\<close> removes: the fixed whitespace table of CPython.
\<close>

definition is_space :: "uchar \<Rightarrow> bool" where
  "is_space c \<longleftrightarrow>
     (9 \<le> c \<and> c \<le> 13) \<or> (28 \<le> c \<and> c \<le> 32) \<or> c = 133 \<or> c = 160 \<or> c = 5760 \<or>
     (8192 \<le> c \<and> c \<le> 8202) \<or> c = 8232 \<or> c = 8233 \<or> c = 8239 \<or> c = 8287 \<or> c = 12288"

definition is_ascii_upper :: "uchar \<Rightarrow> bool" where
  "is_ascii_upper c \<longleftrightarrow> 65 \<le> c \<and> c \<le> 90"

definition is_ascii_lower :: "uchar \<Rightarrow> bool" where
  "is_ascii_lower c \<longleftrightarrow> 97 \<le> c \<and> c \<le> 122"

definition is_ascii_digit :: "uchar \<Rightarrow> bool" where
  "is_ascii_digit c \<longleftrightarrow> 48 \<le> c \<and> c \<le> 57"

text \<open>The classes \<open>\w\<close> and \<open>\d\<close> of \<open>re\<close> on \<open>str\<close> patterns.\<close>

definition is_word :: "unidata \<Rightarrow> uchar \<Rightarrow> bool" where
  "is_word U c \<longleftrightarrow>
     (if c < 128 then is_ascii_upper c \<or> is_ascii_lower c \<or> is_ascii_digit c \<or> c = 95
      else uni_alnum U c)"

definition is_digit :: "unidata \<Rightarrow> uchar \<Rightarrow> bool" where
  "is_digit U c \<longleftrightarrow> (if c < 128 then is_ascii_digit c else uni_decimal U c)"

definition upper_char :: "unidata \<Rightarrow> uchar \<Rightarrow> ustring" where
  "upper_char U c = (if c < 128 then [if is_ascii_lower c then c - 32 else c] else uni_upper U c)"

definition py_upper :: "unidata \<Rightarrow> ustring \<Rightarrow> ustring" where
  "py_upper U s = concat (map (upper_char U) s)"

definition py_lower :: "unidata \<Rightarrow> ustring \<Rightarrow> ustring" where
  "py_lower U s =
     (if list_all (\<lambda>c. c < 128) s then map (\<lambda>c. if is_ascii_upper c then c + 32 else c) s
      else uni_lower U s)"

text \<open>\<open>sub in s\<close> on strings: \<open>sub\<close> occurs in \<open>s\<close> as a contiguous block.\<close>

fun str_in :: "ustring \<Rightarrow> ustring \<Rightarrow> bool" where
  "str_in sub [] = (sub = [])"
| "str_in sub (c # cs) = (prefix sub (c # cs) \<or> str_in sub cs)"

text \<open>\<open>s.strip()\<close>\<close>

definition lstrip :: "ustring \<Rightarrow> ustring" where
  "lstrip s = dropWhile is_space s"

definition rstrip :: "ustring \<Rightarrow> ustring" where
  "rstrip s = rev (dropWhile is_space (rev s))"

definition strip :: "ustring \<Rightarrow> ustring" where
  "strip s = rstrip (lstrip s)"


text \<open>\<open>s.split(sep)\<close> for a non-empty separator, and \<open>sep.join(xs)\<close>.\<close>

function str_split :: "ustring \<Rightarrow> ustring \<Rightarrow> ustring list" where
  "str_split sep [] = [[]]"
| "str_split sep (c # cs) =
     (if sep \<noteq> [] \<and> prefix sep (c # cs)
      then [] # str_split sep (drop (length sep) (c # cs))
      else (case str_split sep cs of
              [] \<Rightarrow> [[c]]
            | piece # pieces \<Rightarrow> (c # piece) # pieces))"
  by pat_completeness auto
termination
  by (relation "measure (\<lambda>(sep, s). length s)") (auto simp: neq_Nil_conv)

fun str_join :: "ustring \<Rightarrow> ustring list \<Rightarrow> ustring" where
  "str_join sep [] = []"
| "str_join sep [x] = x"
| "str_join sep (x # y # ys) = x @ sep @ str_join sep (y # ys)"

text \<open>\<open>str(n)\<close> for a natural number.\<close>

function str_nat :: "nat \<Rightarrow> ustring" where
  "str_nat n = (if n < 10 then [48 + n] else str_nat (n div 10) @ [48 + n mod 10])"
  by pat_completeness auto
termination
  by (relation "measure id") auto

declare str_nat.simps [simp del]


section \<open>Regular expressions\<close>

text \<open>
  The patterns of the source are built from four kinds of items: one character of a
  class, a greedy repetition \<open>class{n,}\<close> (\<open>*\<close> is \<open>{0,}\<close> and \<open>+\<close> is \<open>{1,}\<close>), the lookbehind
  \<open>(?<=[class])\<close> and the word boundary \<open>\b\<close>. A pattern is a list of alternatives tried in
  order, each a sequence of items; a group \<open>(?:A|B)\<close> followed by a tail \<open>T\<close> is the two
  alternatives \<open>AT\<close> and \<open>BT\<close>, which is the order in which the backtracking matcher of
  \<open>re\<close> tries them.
\<close>

datatype atom =
    Chr "uchar \<Rightarrow> bool"
  | Rep nat "uchar \<Rightarrow> bool"
  | Behind "uchar \<Rightarrow> bool"
  | WordB "uchar \<Rightarrow> bool"

type_synonym regex = "atom list list"

definition lit :: "ustring \<Rightarrow> atom list" where
  "lit s = map (\<lambda>x. Chr (\<lambda>c. c = x)) s"

text \<open>
  \<open>\b\<close>: exactly one of the characters before and after the position is a word
  character; the start and the end of the text count as non-word.
\<close>

definition at_boundary :: "(uchar \<Rightarrow> bool) \<Rightarrow> uchar option \<Rightarrow> ustring \<Rightarrow> bool" where
  "at_boundary w prev s \<longleftrightarrow>
     (case prev of None \<Rightarrow> False | Some p \<Rightarrow> w p) \<noteq> (case s of [] \<Rightarrow> False | c # cs \<Rightarrow> w c)"

text \<open>
  Matching a sequence of items at the start of \<open>s\<close>, where \<open>prev\<close> is the character before
  \<open>s\<close> in the whole text. The result is the text left after the match that the
  backtracking matcher finds first: a repetition takes as many characters as it can and
  gives them back one at a time, down to its minimum, while the rest fails.
\<close>

fun rmatch :: "atom list \<Rightarrow> uchar option \<Rightarrow> ustring \<Rightarrow> ustring option" where
  "rmatch [] prev s = Some s"
| "rmatch (Chr f # as) prev [] = None"
| "rmatch (Chr f # as) prev (c # cs) = (if f c then rmatch as (Some c) cs else None)"
| "rmatch (Rep n f # as) prev [] = (if n = 0 then rmatch as prev [] else None)"
| "rmatch (Rep n f # as) prev (c # cs) =
     (if f c then
        (case rmatch (Rep (n - 1) f # as) (Some c) cs of
           Some r \<Rightarrow> Some r
         | None \<Rightarrow> if n = 0 then rmatch as prev (c # cs) else None)
      else if n = 0 then rmatch as prev (c # cs) else None)"
| "rmatch (Behind f # as) prev s =
     (case prev of None \<Rightarrow> None | Some p \<Rightarrow> if f p then rmatch as prev s else None)"
| "rmatch (WordB w # as) prev s = (if at_boundary w prev s then rmatch as prev s else None)"

fun ralt :: "regex \<Rightarrow> uchar option \<Rightarrow> ustring \<Rightarrow> ustring option" where
  "ralt [] prev s = None"
| "ralt (a # alts) prev s =
     (case rmatch a prev s of Some r \<Rightarrow> Some r | None \<Rightarrow> ralt alts prev s)"

text \<open>
  The left-to-right search shared by \<open>re.findall\<close>, \<open>re.sub\<close> and \<open>re.split\<close>: the
  non-overlapping matches in order, each paired with the unmatched text in front of it,
  and the unmatched text after the last match. After a match the search goes on where
  the match ended; where the pattern does not match, one character is passed over.
  No pattern of the source can match the empty string (each has an item that takes a
  character), so an empty match is treated as no match.
\<close>

fun pass :: "uchar \<Rightarrow> (ustring \<times> ustring) list \<times> ustring \<Rightarrow> (ustring \<times> ustring) list \<times> ustring" where
  "pass c ([], rest) = ([], c # rest)"
| "pass c ((before, m) # ms, rest) = ((c # before, m) # ms, rest)"

function scan :: "regex \<Rightarrow> uchar option \<Rightarrow> ustring \<Rightarrow> (ustring \<times> ustring) list \<times> ustring" where
  "scan re prev [] = ([], [])"
| "scan re prev (c # cs) =
     (case ralt re prev (c # cs) of
        None \<Rightarrow> pass c (scan re (Some c) cs)
      | Some r \<Rightarrow>
          if length r < length (c # cs)
          then (let m = take (length (c # cs) - length r) (c # cs);
                    (ms, rest) = scan re (Some (last m)) r
                in (([], m) # ms, rest))
          else pass c (scan re (Some c) cs))"
  by pat_completeness auto
termination
  by (relation "measure (\<lambda>(re, prev, s). length s)") auto

declare scan.simps [simp del]

text \<open>A sequence of items that takes at least one character whenever it matches.\<close>

fun consumes :: "atom list \<Rightarrow> bool" where
  "consumes [] = False"
| "consumes (Chr f # as) = True"
| "consumes (Rep n f # as) = (n > 0 \<or> consumes as)"
| "consumes (Behind f # as) = consumes as"
| "consumes (WordB w # as) = consumes as"

definition findall :: "regex \<Rightarrow> ustring \<Rightarrow> ustring list" where
  "findall re s = map snd (fst (scan re None s))"

definition replace_matches :: "ustring \<Rightarrow> (ustring \<times> ustring) list \<times> ustring \<Rightarrow> ustring" where
  "replace_matches repl found =
     concat (map (\<lambda>(before, m). before @ repl) (fst found)) @ snd found"

definition re_sub :: "regex \<Rightarrow> ustring \<Rightarrow> ustring \<Rightarrow> ustring" where
  "re_sub re repl s = replace_matches repl (scan re None s)"

definition re_split :: "regex \<Rightarrow> ustring \<Rightarrow> ustring list" where
  "re_split re s = (let (ms, rest) = scan re None s in map fst ms @ [rest])"


section \<open>Country extraction (school pipeline)\<close>

text \<open>
  \<open>_extract_country_from_address\<close> of \<open>SchoolRAGOptimizer\<close> and of the school scraper (the two
  copies are identical). The dictionary \<open>countries\<close> is iterated in insertion order, so it
  is an association list.
\<close>

definition countries :: "(ustring \<times> ustring list) list" where
  "countries =
     [(u ''UK'', [u ''UK'', u ''United Kingdom'', u ''England'', u ''Scotland'', u ''Wales'',
                  u ''Northern Ireland'']),
      (u ''US'', [u ''US'', u ''USA'', u ''United States'', u ''America'']),
      (u ''CA'', [u ''Canada'', u ''CA'']),
      (u ''AU'', [u ''Australia'', u ''AU'']),
      (u ''CN'', [u ''China'', u ''CN'', u ''Hong Kong'', u ''Macau''])]"

text \<open>The inner loop: does some indicator, upper-cased, occur in the upper-cased address?\<close>

fun indicator_found :: "unidata \<Rightarrow> ustring \<Rightarrow> ustring list \<Rightarrow> bool" where
  "indicator_found U address_upper [] = False"
| "indicator_found U address_upper (indicator # indicators) =
     (if str_in (py_upper U indicator) address_upper then True
      else indicator_found U address_upper indicators)"

text \<open>The outer loop, returning at the first hit; the empty string when the loop ends.\<close>

fun scan_countries :: "unidata \<Rightarrow> ustring \<Rightarrow> (ustring \<times> ustring list) list \<Rightarrow> ustring" where
  "scan_countries U address_upper [] = []"
| "scan_countries U address_upper ((country_code, indicators) # rest) =
     (if indicator_found U address_upper indicators then country_code
      else scan_countries U address_upper rest)"

definition extract_country_from_address :: "unidata \<Rightarrow> ustring \<Rightarrow> ustring" where
  "extract_country_from_address U address =
     (if address = [] then []
      else scan_countries U (py_upper U address) countries)"

text \<open>
  The reading of "the indicator appears case-insensitively in the address" that the code
  implements, for one table entry.
\<close>

definition entry_matches :: "unidata \<Rightarrow> ustring \<Rightarrow> ustring \<times> ustring list \<Rightarrow> bool" where
  "entry_matches U address e \<longleftrightarrow>
     (\<exists>indicator \<in> set (snd e). str_in (py_upper U indicator) (py_upper U address))"



section \<open>Search variations (school pipeline)\<close>

text \<open>
  \<open>_generate_search_variations\<close> of \<open>SchoolRAGOptimizer\<close> and of the school scraper (the two
  copies are identical). The optimizer object holds the table \<open>education_keywords\<close>; the
  argument is a dictionary read through \<open>name\<close>, \<open>country\<close> and \<open>popular_subjects\<close>, where a
  missing or empty entry is the empty string or the empty list.
\<close>

record SchoolRAGOptimizer =
  education_keywords :: "(ustring \<times> ustring list) list"

definition SchoolRAGOptimizer_init :: SchoolRAGOptimizer where
  "SchoolRAGOptimizer_init =
     \<lparr>education_keywords =
        [(u ''UK'', [u ''united kingdom'', u ''england'', u ''london'', u ''british'',
                     u ''scotland'', u ''wales'']),
         (u ''US'', [u ''united states'', u ''america'', u ''california'', u ''new york'',
                     u ''boston'']),
         (u ''AU'', [u ''australia'', u ''sydney'', u ''melbourne'', u ''brisbane'']),
         (u ''CA'', [u ''canada'', u ''toronto'', u ''vancouver'', u ''montreal'']),
         (u ''CN'', [u ''china'', u ''hong kong'', u ''macau'', u ''beijing'', u ''shanghai''])]\<rparr>"

record school =
  school_name :: ustring
  school_country :: ustring
  school_popular_subjects :: "ustring list"

text \<open>The three parts appended in turn to \<open>variations\<close>, then the slice \<open>[:10]\<close>.\<close>

definition name_variations :: "school \<Rightarrow> ustring list" where
  "name_variations school =
     (if school_name school \<noteq> [] then
        [school_name school] @
        (if school_country school \<noteq> []
         then [school_name school @ u '' '' @ school_country school] else [])
      else [])"

fun subject_variations :: "school \<Rightarrow> ustring list \<Rightarrow> ustring list" where
  "subject_variations school [] = []"
| "subject_variations school (subject # subjects) =
     (if school_name school \<noteq> []
      then (school_name school @ u '' '' @ subject) # subject_variations school subjects
      else subject_variations school subjects)"

definition keyword_variations :: "SchoolRAGOptimizer \<Rightarrow> school \<Rightarrow> ustring list" where
  "keyword_variations self school =
     (let country = school_country school in
      if country \<noteq> [] then
        (case map_of (education_keywords self) country of
           None \<Rightarrow> []
         | Some keywords \<Rightarrow> subject_variations school (take 3 keywords))
      else [])"

definition generate_search_variations :: "SchoolRAGOptimizer \<Rightarrow> school \<Rightarrow> ustring list" where
  "generate_search_variations self school =
     take 10 (name_variations school
              @ subject_variations school (take 3 (school_popular_subjects school))
              @ keyword_variations self school)"

text \<open>The terms that are appended to the name, in the order of generation.\<close>

definition appended_terms :: "SchoolRAGOptimizer \<Rightarrow> school \<Rightarrow> ustring list" where
  "appended_terms self school =
     (if school_country school \<noteq> [] then [school_country school] else [])
     @ take 3 (school_popular_subjects school)
     @ (if school_country school \<noteq> [] then
          (case map_of (education_keywords self) (school_country school) of
             None \<Rightarrow> [] | Some keywords \<Rightarrow> take 3 keywords)
        else [])"


section \<open>Heading-delimited chunks (article pipeline)\<close>

text \<open>
  \<open>_create_semantic_chunks\<close> of \<open>RAGOptimizer\<close>. A chunk is the dictionary with the keys
  \<open>id\<close>, \<open>heading\<close>, \<open>content\<close>, \<open>context\<close> and \<open>length\<close>.
\<close>

record chunk =
  chunk_id :: ustring
  chunk_heading :: ustring
  chunk_content :: ustring
  chunk_context :: ustring
  chunk_length :: nat

text \<open>The pattern \<open>\n##\s+\<close>.\<close>

definition heading_marker :: regex where
  "heading_marker = [lit [10, 35, 35] @ [Rep 1 is_space]]"

text \<open>\<open>lines[0].strip() if lines else ""\<close> for \<open>lines = section.split('\n')\<close>.\<close>

definition section_heading :: "ustring \<Rightarrow> ustring" where
  "section_heading section =
     (case str_split [10] section of [] \<Rightarrow> [] | line # lines \<Rightarrow> strip line)"

text \<open>\<open>'\n'.join(lines[1:]).strip() if len(lines) > 1 else section.strip()\<close>\<close>

definition section_content :: "ustring \<Rightarrow> ustring" where
  "section_content section =
     (let lines = str_split [10] section in
      if length lines > 1 then strip (str_join [10] (tl lines)) else strip section)"

text \<open>\<open>[p.strip() for p in section_content.split('\n\n') if p.strip()]\<close>\<close>

definition paragraphs_of :: "ustring \<Rightarrow> ustring list" where
  "paragraphs_of text = map strip (filter (\<lambda>p. strip p \<noteq> []) (str_split [10, 10] text))"

text \<open>The inner loop over \<open>enumerate(paragraphs)\<close>, from index \<open>j\<close> on.\<close>

fun paragraph_chunks :: "ustring \<Rightarrow> ustring \<Rightarrow> nat \<Rightarrow> nat \<Rightarrow> ustring list \<Rightarrow> chunk list" where
  "paragraph_chunks title heading i j [] = []"
| "paragraph_chunks title heading i j (paragraph # paragraphs) =
     (if length paragraph < 30 then paragraph_chunks title heading i (Suc j) paragraphs
      else
        \<lparr>chunk_id = (if j > 0 then u ''chunk_'' @ str_nat i @ u ''_'' @ str_nat j
                      else u ''chunk_'' @ str_nat i),
         chunk_heading = heading,
         chunk_content = paragraph,
         chunk_context = (if heading \<noteq> [] then title @ u '' - '' @ heading else title),
         chunk_length = length paragraph\<rparr>
        # paragraph_chunks title heading i (Suc j) paragraphs)"

text \<open>The outer loop over \<open>enumerate(sections)\<close>, from index \<open>i\<close> on.\<close>

fun section_chunks :: "ustring \<Rightarrow> nat \<Rightarrow> ustring list \<Rightarrow> chunk list" where
  "section_chunks title i [] = []"
| "section_chunks title i (section # sections) =
     (if strip section = [] then section_chunks title (Suc i) sections
      else if length (section_content section) < 50 then section_chunks title (Suc i) sections
      else paragraph_chunks title (section_heading section) i 0
             (paragraphs_of (section_content section))
           @ section_chunks title (Suc i) sections)"

definition create_semantic_chunks :: "ustring \<Rightarrow> ustring \<Rightarrow> chunk list" where
  "create_semantic_chunks content title =
     section_chunks title 0 (re_split heading_marker content)"


section \<open>Question and answer pairs (article pipeline)\<close>

text \<open>
  \<open>_generate_qa_pairs\<close> of \<open>RAGOptimizer\<close>. The function builds the list \<open>qa_patterns\<close> of the
  two title-level entries and then the list \<open>qa_pairs\<close> from the first five chunks; it
  returns \<open>qa_pairs\<close>, and \<open>qa_patterns\<close> is not used again. The question texts are the
  Chinese phrases of the source: U+4EC0 U+9EBC U+662F ("what is") before the title with
  U+FF1F (full-width question mark) after it, U+95DC U+65BC ("about") before the title
  with U+7684 U+8A73 U+7D30 U+8CC7 U+8A0A ("'s detailed information") after it, and
  U+662F U+4EC0 U+9EBC U+FF1F ("is what?") after a heading.
\<close>

record qa_pattern =
  question_pattern :: ustring
  pattern_answer :: ustring

record qa_pair =
  qa_question :: ustring
  qa_answer :: ustring
  qa_context :: ustring

definition qa_patterns :: "ustring \<Rightarrow> ustring \<Rightarrow> chunk list \<Rightarrow> qa_pattern list" where
  "qa_patterns title content chunks =
     [\<lparr>question_pattern = [0x4EC0, 0x9EBC, 0x662F] @ title @ [0xFF1F],
       pattern_answer = (case chunks of
                           [] \<Rightarrow> take 200 content @ u ''...''
                         | first # others \<Rightarrow> chunk_content first)\<rparr>,
      \<lparr>question_pattern = [0x95DC, 0x65BC] @ title @ [0x7684, 0x8A73, 0x7D30, 0x8CC7, 0x8A0A],
       pattern_answer = (if length content > 300 then take 300 content @ u ''...''
                         else content)\<rparr>]"

fun heading_pairs :: "chunk list \<Rightarrow> qa_pair list" where
  "heading_pairs [] = []"
| "heading_pairs (chunk # chunks) =
     (if chunk_heading chunk \<noteq> []
      then \<lparr>qa_question = chunk_heading chunk @ [0x662F, 0x4EC0, 0x9EBC, 0xFF1F],
            qa_answer = chunk_content chunk,
            qa_context = chunk_context chunk\<rparr> # heading_pairs chunks
      else heading_pairs chunks)"

definition generate_qa_pairs :: "ustring \<Rightarrow> ustring \<Rightarrow> chunk list \<Rightarrow> qa_pair list" where
  "generate_qa_pairs title content chunks =
     (let patterns = qa_patterns title content chunks
      in heading_pairs (take 5 chunks))"


text \<open>
  Two article bodies used to evaluate the chunker: one with three sections, and one that
  is a single paragraph with no heading marker and no line break, as every body is that
  \<open>_clean_text\<close> has normalised.
\<close>

definition headless_body :: ustring where
  "headless_body = u ''IELTS is an international English language test for students''"

definition example_body :: ustring where
  "example_body =
     u ''Intro'' @ [10, 10]
     @ u ''IELTS is an international English language test for students.''
     @ [10, 35, 35, 32] @ u ''Fees'' @ [10, 10]
     @ u ''The fee is about HK$2000 and students must register early.''
     @ [10, 10] @ u ''Short note.''
     @ [10, 35, 35, 32] @ u ''Tiny'' @ [10, 10] @ u ''Too short a section.''"



section \<open>Sentence packing (subject pipeline)\<close>

text \<open>
  \<open>clean_text\<close> and the main-content part of \<open>optimize_for_rag\<close> of the subject scraper.
  The patterns are \<open>\s+\<close>, \<open>\n+\<close> and \<open>(?<=[.!?])\s+\<close>.
\<close>

definition whitespace_run :: regex where
  "whitespace_run = [[Rep 1 is_space]]"

definition newline_run :: regex where
  "newline_run = [[Rep 1 (\<lambda>c. c = 10)]]"

definition sentence_end :: regex where
  "sentence_end = [[Behind (\<lambda>c. c = 46 \<or> c = 33 \<or> c = 63), Rep 1 is_space]]"

definition clean_text :: "ustring \<Rightarrow> ustring" where
  "clean_text text =
     (if text = [] then []
      else re_sub newline_run (u '' '') (strip (re_sub whitespace_run (u '' '') text)))"

text \<open>\<open>s.replace(' ', '_')\<close>\<close>

definition spaces_to_underscores :: "ustring \<Rightarrow> ustring" where
  "spaces_to_underscores s = map (\<lambda>c. if c = 32 then 95 else c) s"

record subject_chunk =
  sc_chunk_id :: ustring
  sc_title :: ustring
  sc_type :: ustring
  sc_content :: ustring

text \<open>The dictionary \<open>content_chunk\<close> built from the buffer and the running count.\<close>

definition content_chunk :: "unidata \<Rightarrow> ustring \<Rightarrow> nat \<Rightarrow> ustring \<Rightarrow> subject_chunk" where
  "content_chunk U english_name chunk_count current_chunk =
     \<lparr>sc_chunk_id = spaces_to_underscores (py_lower U english_name) @ u ''_content_''
                      @ str_nat chunk_count,
      sc_title = english_name @ u '' - Content Part '' @ str_nat chunk_count,
      sc_type = u ''content'',
      sc_content = strip current_chunk\<rparr>"

text \<open>
  The loop over the sentences with its two variables \<open>current_chunk\<close> and \<open>chunk_count\<close>,
  and the emission of the last buffer after the loop; the result is the list of chunks
  appended, in order.
\<close>

fun pack_sentences ::
  "unidata \<Rightarrow> ustring \<Rightarrow> ustring \<Rightarrow> nat \<Rightarrow> ustring list \<Rightarrow> subject_chunk list" where
  "pack_sentences U english_name current_chunk chunk_count [] =
     (if current_chunk \<noteq> []
      then [content_chunk U english_name (chunk_count + 1) current_chunk] else [])"
| "pack_sentences U english_name current_chunk chunk_count (sentence # sentences) =
     (if length current_chunk + length sentence > 1000 \<and> current_chunk \<noteq> []
      then content_chunk U english_name (chunk_count + 1) current_chunk
           # pack_sentences U english_name sentence (chunk_count + 1) sentences
      else if current_chunk \<noteq> []
      then pack_sentences U english_name (current_chunk @ u '' '' @ sentence) chunk_count
             sentences
      else pack_sentences U english_name sentence chunk_count sentences)"

definition content_chunks :: "unidata \<Rightarrow> ustring \<Rightarrow> ustring \<Rightarrow> subject_chunk list" where
  "content_chunks U english_name content =
     (if content \<noteq> []
      then pack_sentences U english_name [] 0 (re_split sentence_end (clean_text content))
      else [])"



section \<open>Keyword extraction (article pipeline)\<close>

text \<open>
  \<open>_extract_keywords\<close> of \<open>RAGOptimizer\<close>. The optimizer object holds the set \<open>stopwords\<close>,
  which \<open>__init__\<close> fills with the words below (given by their code points).
\<close>

record RAGOptimizer =
  stopwords :: "ustring set"

definition RAGOptimizer_init :: RAGOptimizer where
  "RAGOptimizer_init = \<lparr>stopwords = set [
        [0x7684], [0x4E86], [0x5728], [0x662F], [0x6211], [0x6709], [0x548C], [0x5C31],
        [0x4E0D], [0x4EBA], [0x90FD], [0x4E00], [0x4E00, 0x500B], [0x4E0A], [0x4E5F], [0x5F88],
        [0x5230], [0x8AAA], [0x8981], [0x53BB], [0x4F60], [0x6703], [0x8457], [0x6C92, 0x6709],
        [0x770B], [0x597D], [0x81EA, 0x5DF1], [0x9019], [0x90A3], [0x53EF, 0x4EE5],
        [0x9019, 0x500B], [0x90A3, 0x500B], [0x4F46, 0x662F], [0x56E0, 0x70BA],
        [0x6240, 0x4EE5], [0x5982, 0x679C], [0x96D6, 0x7136], [0x7136, 0x5F8C],
        [0x9084, 0x662F], [0x5DF2, 0x7D93], [0x61C9, 0x8A72], [0x53EF, 0x80FD],
        [0x6642, 0x5019], [0x5730, 0x65B9], [0x554F, 0x984C], [0x65B9, 0x6CD5],
        [0x60C5, 0x6CC1], [0x6642, 0x9593], [0x5DE5, 0x4F5C], [0x751F, 0x6D3B],
        [0x5B78, 0x7FD2], [0x77E5, 0x9053], [0x8A8D, 0x70BA], [0x89BA, 0x5F97],
        [0x5E0C, 0x671B], [0x9700, 0x8981], [0x60F3, 0x8981], [0x958B, 0x59CB],
        [0x9032, 0x884C], [0x767C, 0x73FE], [0x51FA, 0x73FE], [0x7522, 0x751F],
        [0x5F62, 0x6210], [0x5EFA, 0x7ACB], [0x5275, 0x9020], [0x767C, 0x5C55],
        [0x63D0, 0x9AD8], [0x589E, 0x52A0], [0x6E1B, 0x5C11], [0x6539, 0x8B8A],
        [0x5F71, 0x97FF], [0x4F5C, 0x7528], [0x95DC, 0x4FC2], [0x806F, 0x7E6B],
        [0x6BD4, 0x8F03], [0x4E0D, 0x540C], [0x76F8, 0x540C], [0x91CD, 0x8981],
        [0x4E3B, 0x8981], [0x57FA, 0x672C], [0x4E00, 0x822C], [0x7279, 0x5225],
        [0x5C24, 0x5176], [0x7279, 0x6B8A], [0x5177, 0x9AD4], [0x8A73, 0x7D30],
        [0x7C21, 0x55AE], [0x8907, 0x96DC], [0x5BB9, 0x6613], [0x56F0, 0x96E3],
        [0x53EF, 0x80FD], [0x4E0D, 0x53EF, 0x80FD], [0x5FC5, 0x9808], [0x61C9, 0x7576],
        [0x80FD, 0x5920], [0x7121, 0x6CD5], [0x5141, 0x8A31], [0x7981, 0x6B62],
        [0x5305, 0x62EC], [0x9664, 0x4E86], [0x95DC, 0x65BC], [0x5C0D, 0x65BC],
        [0x6839, 0x64DA], [0x6309, 0x7167], [0x901A, 0x904E], [0x5229, 0x7528],
        [0x4F7F, 0x7528], [0x63A1, 0x7528], [0x9078, 0x64C7], [0x6C7A, 0x5B9A],
        [0x78BA, 0x5B9A], [0x5B89, 0x6392], [0x8A08, 0x5283], [0x6E96, 0x5099],
        [0x5B8C, 0x6210], [0x5BE6, 0x73FE], [0x9054, 0x5230], [0x7372, 0x5F97],
        [0x53D6, 0x5F97], [0x6210, 0x529F], [0x5931, 0x6557], [0x6B63, 0x78BA],
        [0x932F, 0x8AA4], [0x597D, 0x7684], [0x58DE, 0x7684], [0x5927, 0x7684],
        [0x5C0F, 0x7684], [0x591A, 0x7684], [0x5C11, 0x7684], [0x9AD8, 0x7684],
        [0x4F4E, 0x7684], [0x9577, 0x7684], [0x77ED, 0x7684], [0x65B0, 0x7684],
        [0x820A, 0x7684]]\<rparr>"

text \<open>
  The list \<open>important_patterns\<close>: \<open>[A-Z]{2,}\<close>; \<open>\d+\<close> followed by U+5E74 ("year");
  U+7B2C ("number") followed by \<open>\d+\<close>; one of the labels U+5B78 U+8CBB, U+8CBB U+7528
  ("fee") followed by \<open>\s*[:C]\s*[^\n]+\<close>, where \<open>C\<close> stands for the
  full-width colon U+FF1A; one of the labels U+5165 U+5B78 U+8981 U+6C42, U+7533 U+8ACB
  U+689D U+4EF6 ("requirements") followed by \<open>[:C][^\n]+\<close>; and one of the labels
  U+622A U+6B62 U+65E5 U+671F, U+7533 U+8ACB U+671F U+9650 ("deadline") followed by
  \<open>[:C][^\n]+\<close>.
\<close>

definition is_colon :: "uchar \<Rightarrow> bool" where
  "is_colon c \<longleftrightarrow> c = 58 \<or> c = 0xFF1A"

definition rest_of_line :: atom where
  "rest_of_line = Rep 1 (\<lambda>c. c \<noteq> 10)"

definition important_patterns :: "unidata \<Rightarrow> regex list" where
  "important_patterns U =
     [[[Rep 2 is_ascii_upper]],
      [[Rep 1 (is_digit U), Chr (\<lambda>c. c = 0x5E74)]],
      [[Chr (\<lambda>c. c = 0x7B2C), Rep 1 (is_digit U)]],
      [lit [0x5B78, 0x8CBB] @ [Rep 0 is_space, Chr is_colon, Rep 0 is_space, rest_of_line],
       lit [0x8CBB, 0x7528] @ [Rep 0 is_space, Chr is_colon, Rep 0 is_space, rest_of_line]],
      [lit [0x5165, 0x5B78, 0x8981, 0x6C42] @ [Chr is_colon, rest_of_line],
       lit [0x7533, 0x8ACB, 0x689D, 0x4EF6] @ [Chr is_colon, rest_of_line]],
      [lit [0x622A, 0x6B62, 0x65E5, 0x671F] @ [Chr is_colon, rest_of_line],
       lit [0x7533, 0x8ACB, 0x671F, 0x9650] @ [Chr is_colon, rest_of_line]]]"

text \<open>
  The first channel: for each pattern in turn, every match, stripped, is put into the set
  \<open>keywords\<close>. The list holds the insertions in order.
\<close>

definition pattern_keywords :: "unidata \<Rightarrow> ustring \<Rightarrow> ustring list" where
  "pattern_keywords U text =
     concat (map (\<lambda>pattern. map strip (findall pattern text)) (important_patterns U))"

text \<open>The pattern \<open>[U+4E00-U+9FFF]{2,}|[A-Za-z]{3,}\<close>, the range written \<^verbatim>\<open>\u4e00-\u9fff\<close> in the source.\<close>

definition word_pattern :: regex where
  "word_pattern =
     [[Rep 2 (\<lambda>c. 0x4E00 \<le> c \<and> c \<le> 0x9FFF)],
      [Rep 3 (\<lambda>c. is_ascii_upper c \<or> is_ascii_lower c)]]"

text \<open>
  \<open>word_freq[word] = word_freq.get(word, 0) + 1\<close> on a dictionary, which keeps its keys in
  the order of their first insertion.
\<close>

fun count_word :: "(ustring \<times> nat) list \<Rightarrow> ustring \<Rightarrow> (ustring \<times> nat) list" where
  "count_word [] word = [(word, 1)]"
| "count_word ((key, freq) # items) word =
     (if key = word then (key, freq + 1) # items else (key, freq) # count_word items word)"

fun count_words ::
  "RAGOptimizer \<Rightarrow> (ustring \<times> nat) list \<Rightarrow> ustring list \<Rightarrow> (ustring \<times> nat) list" where
  "count_words self word_freq [] = word_freq"
| "count_words self word_freq (word # words) =
     (if word \<notin> stopwords self \<and> length word > 1
      then count_words self (count_word word_freq word) words
      else count_words self word_freq words)"

text \<open>
  \<open>sorted(word_freq.items(), key=lambda x: x[1], reverse=True)[:20]\<close>: a stable sort by
  descending frequency (items of equal frequency keep their order), then the first 20.
\<close>

definition top_words :: "RAGOptimizer \<Rightarrow> ustring \<Rightarrow> (ustring \<times> nat) list" where
  "top_words self text =
     take 20 (sort_key (\<lambda>(word, freq). - int freq)
                (count_words self [] (findall word_pattern text)))"

text \<open>The second channel: \<open>[word for word, freq in top_words if freq > 2]\<close>.\<close>

definition frequent_words :: "RAGOptimizer \<Rightarrow> ustring \<Rightarrow> ustring list" where
  "frequent_words self text = map fst (filter (\<lambda>(word, freq). freq > 2) (top_words self text))"

text \<open>
  \<open>sorted(list(keywords))\<close>: the elements of the set in the order of strings, which
  compares code points lexicographically.
\<close>

definition RAGOptimizer_extract_keywords :: "RAGOptimizer \<Rightarrow> unidata \<Rightarrow> ustring \<Rightarrow> ustring list" where
  "RAGOptimizer_extract_keywords self U text =
     sort (remdups (pattern_keywords U text @ frequent_words self text))"

text \<open>A text that names 21 examinations by their acronyms.\<close>

definition example_acronyms :: ustring where
  "example_acronyms =
     u ''IELTS TOEFL SAT GCSE IB AP ACT GMAT GRE LSAT MCAT UCAS HKDSE IGCSE BTEC NCEA VCE HSC ATAR OSSD GPA''"


section \<open>Keyword extraction (school pipeline)\<close>

text \<open>
  \<open>_clean_text\<close> and \<open>_extract_keywords\<close> of \<open>SchoolRAGOptimizer\<close>. The keywords are returned
  as \<open>list(set(keywords))[:20]\<close>. The iteration order of a set of strings follows their
  hash values, which CPython salts anew for every process, so it is not determined by
  the program: it is the parameter \<open>set_order\<close>, which maps the inserted elements to the
  list that iterating the set yields. All that is known of it is \<open>valid_set_order\<close>.
\<close>

definition SchoolRAGOptimizer_clean_text :: "ustring \<Rightarrow> ustring" where
  "SchoolRAGOptimizer_clean_text text =
     (if text = [] then []
      else strip (re_sub whitespace_run (u '' '') (re_sub newline_run (u '' '') text)))"

text \<open>The pattern \<open>\b\w{4,}\b\<close>.\<close>

definition long_word :: "unidata \<Rightarrow> regex" where
  "long_word U = [[WordB (is_word U), Rep 4 (is_word U), WordB (is_word U)]]"

definition school_stopwords :: "ustring set" where
  "school_stopwords =
     set [u ''school'', u ''university'', u ''college'', u ''campus'', u ''student'',
          u ''students'', u ''education'']"

definition valid_set_order :: "(ustring list \<Rightarrow> ustring list) \<Rightarrow> bool" where
  "valid_set_order set_order \<longleftrightarrow>
     (\<forall>xs. distinct (set_order xs) \<and> set (set_order xs) = set xs)"

definition SchoolRAGOptimizer_extract_keywords ::
  "(ustring list \<Rightarrow> ustring list) \<Rightarrow> unidata \<Rightarrow> ustring \<Rightarrow> ustring list" where
  "SchoolRAGOptimizer_extract_keywords set_order U text =
     (if text = [] then []
      else
        (let cleaned_text = SchoolRAGOptimizer_clean_text text;
             words = findall (long_word U) (py_lower U cleaned_text);
             keywords = filter (\<lambda>word. word \<notin> school_stopwords) words;
             unique_keywords = take 20 (set_order keywords)
         in unique_keywords))"



section \<open>Text normalisation (article pipeline)\<close>

text \<open>
  \<open>_clean_text\<close> of \<open>RAGOptimizer\<close>. Its second substitution replaces every character outside
  a class by a space. In the pattern, a raw string, the escape \<^verbatim>\<open>\u\<close> takes exactly four
  hexadecimal digits, so an item written with five digits on each side, such as
  \<^verbatim>\<open>\u20000-\u2a6df\<close>, is three items: the character U+2000, the range from the digit 0
  to U+2A6D, and the letter f. The pattern is written as two adjacent string literals;
  the first ends after two ASCII double quotes, which are therefore in the class, and
  the second holds the brackets. \<open>kept_char\<close> lists the items of the class in the order of
  the source.
\<close>

definition kept_char :: "unidata \<Rightarrow> uchar \<Rightarrow> bool" where
  "kept_char U c \<longleftrightarrow>
     is_word U c \<or> is_space c
     \<or> (0x4E00 \<le> c \<and> c \<le> 0x9FFF) \<or> (0x3400 \<le> c \<and> c \<le> 0x4DBF)
     \<or> c = 0x2000 \<or> (0x30 \<le> c \<and> c \<le> 0x2A6D) \<or> c = 0x66
     \<or> c = 0x2A70 \<or> (0x30 \<le> c \<and> c \<le> 0x2B73) \<or> c = 0x66
     \<or> c = 0x2B74 \<or> (0x30 \<le> c \<and> c \<le> 0x2B81) \<or> c = 0x66
     \<or> c = 0x2B82 \<or> (0x30 \<le> c \<and> c \<le> 0x2CEA) \<or> c = 0x66
     \<or> (0xF900 \<le> c \<and> c \<le> 0xFAFF) \<or> (0x3300 \<le> c \<and> c \<le> 0x33FF)
     \<or> (0xFE30 \<le> c \<and> c \<le> 0xFE4F) \<or> (0xF900 \<le> c \<and> c \<le> 0xFAFF)
     \<or> c = 0x2F80 \<or> (0x30 \<le> c \<and> c \<le> 0x2FA1) \<or> c = 0x66
     \<or> c = 0xFF0C \<or> c = 0x3002 \<or> c = 0xFF01 \<or> c = 0xFF1F \<or> c = 0xFF1B \<or> c = 0xFF1A
     \<or> c = 0x22 \<or> c = 0x22
     \<or> c = 0xFF08 \<or> c = 0xFF09 \<or> c = 0x3010 \<or> c = 0x3011 \<or> c = 0x300A \<or> c = 0x300B
     \<or> c = 0x3001"

definition formatting_artifact :: "unidata \<Rightarrow> regex" where
  "formatting_artifact U = [[Chr (\<lambda>c. \<not> kept_char U c)]]"

text \<open>
  The class of the third pattern: the full-width comma U+FF0C, the ideographic full stop
  U+3002, and the full-width exclamation mark, question mark, semicolon and colon. The
  pattern is this class with \<open>\s*\<close> on both sides; the replacement is the full-width comma.
\<close>

definition is_cjk_punct :: "uchar \<Rightarrow> bool" where
  "is_cjk_punct c \<longleftrightarrow>
     c = 0xFF0C \<or> c = 0x3002 \<or> c = 0xFF01 \<or> c = 0xFF1F \<or> c = 0xFF1B \<or> c = 0xFF1A"

definition spaced_punct :: regex where
  "spaced_punct = [[Rep 0 is_space, Chr is_cjk_punct, Rep 0 is_space]]"

definition RAGOptimizer_clean_text :: "unidata \<Rightarrow> ustring \<Rightarrow> ustring" where
  "RAGOptimizer_clean_text U text =
     (if text = [] then []
      else
        (let text1 = re_sub whitespace_run (u '' '') (strip text);
             text2 = re_sub (formatting_artifact U) (u '' '') text1;
             text3 = re_sub spaced_punct [0xFF0C] text2;
             text4 = re_sub whitespace_run (u '' '') text3
         in strip text4))"


section \<open>Assembling documents (article pipeline)\<close>

text \<open>
  \<open>optimize_articles_for_rag\<close> and \<open>_optimize_single_article\<close> of \<open>RAGOptimizer\<close>. The articles
  come from a JSON file, so the entries \<open>title\<close>, \<open>content\<close> and \<open>excerpt\<close> of an article
  are JSON values that need not be strings (numbers are taken as integers); a missing
  entry is the empty string, the default of \<open>article.get\<close>. \<open>_clean_text\<close> returns the empty string for every falsy value and
  calls \<open>text.strip()\<close> on every other one, which raises \<open>AttributeError\<close> unless the value is
  a string. The other entries of an article (\<open>categories\<close>, \<open>headings\<close>, \<open>source_url\<close>) are
  taken to be well formed and are left out, together with the document entries
  computed from them alone (\<open>topics\<close>, \<open>structure\<close>), \<open>searchable_content\<close> and the
  time stamps.
\<close>

datatype json =
    JNull
  | JBool bool
  | JNum int
  | JStr ustring
  | JArr "json list"
  | JObj "(ustring \<times> json) list"

fun truthy :: "json \<Rightarrow> bool" where
  "truthy JNull = False"
| "truthy (JBool b) = b"
| "truthy (JNum n) = (n \<noteq> 0)"
| "truthy (JStr s) = (s \<noteq> [])"
| "truthy (JArr xs) = (xs \<noteq> [])"
| "truthy (JObj kvs) = (kvs \<noteq> [])"

datatype py_error = AttributeError

definition clean_field :: "unidata \<Rightarrow> json \<Rightarrow> py_error + ustring" where
  "clean_field U v =
     (if \<not> truthy v then Inr []
      else (case v of JStr s \<Rightarrow> Inr (RAGOptimizer_clean_text U s) | _ \<Rightarrow> Inl AttributeError))"

text \<open>\<open>s[:200] + "..." if len(s) > 200 else s\<close>\<close>

definition truncate200 :: "ustring \<Rightarrow> ustring" where
  "truncate200 s = (if length s > 200 then take 200 s @ u ''...'' else s)"

definition create_summary :: "ustring \<Rightarrow> ustring" where
  "create_summary content =
     (case find (\<lambda>paragraph. length paragraph > 50 \<and> \<not> prefix (u ''##'') paragraph)
             (paragraphs_of content) of
        Some paragraph \<Rightarrow> truncate200 paragraph
      | None \<Rightarrow> truncate200 content)"

record article =
  art_title :: json
  art_content :: json
  art_excerpt :: json

record document =
  doc_id :: ustring
  doc_title :: ustring
  doc_summary :: ustring
  doc_full_content :: ustring
  doc_keywords :: "ustring list"
  doc_semantic_chunks :: "chunk list"
  doc_qa_pairs :: "qa_pair list"

text \<open>The identifier \<open>f"linkedu_{index:04d}"\<close>: the index padded with zeros to four digits.\<close>

definition document_id :: "nat \<Rightarrow> ustring" where
  "document_id index =
     u ''linkedu_'' @ replicate (4 - length (str_nat index)) 48 @ str_nat index"

definition optimize_single_article ::
  "RAGOptimizer \<Rightarrow> unidata \<Rightarrow> article \<Rightarrow> nat \<Rightarrow> py_error + document option" where
  "optimize_single_article self U article index =
     (case clean_field U (art_title article) of
        Inl e \<Rightarrow> Inl e
      | Inr title \<Rightarrow>
     (case clean_field U (art_content article) of
        Inl e \<Rightarrow> Inl e
      | Inr content \<Rightarrow>
     (case clean_field U (art_excerpt article) of
        Inl e \<Rightarrow> Inl e
      | Inr excerpt \<Rightarrow>
          if title = [] \<or> content = [] then Inr None
          else
            (let chunks = create_semantic_chunks content title;
                 keywords = RAGOptimizer_extract_keywords self U
                              (title @ u '' '' @ excerpt @ u '' '' @ content);
                 qa_pairs = generate_qa_pairs title content chunks
             in Inr (Some
                  \<lparr>doc_id = document_id index,
                   doc_title = title,
                   doc_summary = (if excerpt \<noteq> [] then excerpt else create_summary content),
                   doc_full_content = content,
                   doc_keywords = keywords,
                   doc_semantic_chunks = chunks,
                   doc_qa_pairs = qa_pairs\<rparr>)))))"

text \<open>
  The loop of \<open>optimize_articles_for_rag\<close> over \<open>enumerate(articles)\<close>, from position \<open>i\<close> on.
  Its state is the list \<open>optimized_articles\<close> and the log: an exception is caught and
  logged by \<open>logger.error\<close> with the number \<open>i + 1\<close> of the article and the exception; a
  result \<open>None\<close> is passed over.
\<close>

type_synonym log_entry = "nat \<times> py_error"

fun optimize_loop ::
  "RAGOptimizer \<Rightarrow> unidata \<Rightarrow> nat \<Rightarrow> article list \<Rightarrow> document list \<times> log_entry list
     \<Rightarrow> document list \<times> log_entry list" where
  "optimize_loop self U i [] state = state"
| "optimize_loop self U i (article # articles) (optimized_articles, log) =
     (case optimize_single_article self U article (i + 1) of
        Inl e \<Rightarrow> optimize_loop self U (i + 1) articles (optimized_articles, log @ [(i + 1, e)])
      | Inr None \<Rightarrow> optimize_loop self U (i + 1) articles (optimized_articles, log)
      | Inr (Some optimized) \<Rightarrow>
          optimize_loop self U (i + 1) articles (optimized_articles @ [optimized], log))"

record batch_result =
  total_documents :: nat
  documents :: "document list"
  error_log :: "log_entry list"

definition batch_result_of :: "document list \<times> log_entry list \<Rightarrow> batch_result" where
  "batch_result_of state =
     \<lparr>total_documents = length (fst state), documents = fst state, error_log = snd state\<rparr>"

definition optimize_articles_for_rag ::
  "RAGOptimizer \<Rightarrow> unidata \<Rightarrow> article list \<Rightarrow> batch_result" where
  "optimize_articles_for_rag self U articles =
     batch_result_of (optimize_loop self U 0 articles ([], []))"


text \<open>
  The exception, if any, that the three normalisations at the start of
  \<open>_optimize_single_article\<close> raise: title, content and excerpt are normalised in this
  order, before the test for an empty title or content, and the first exception ends the
  call.
\<close>

definition field_error :: "unidata \<Rightarrow> article \<Rightarrow> py_error option" where
  "field_error U article =
     (case clean_field U (art_title article) of
        Inl e \<Rightarrow> Some e
      | Inr title \<Rightarrow>
     (case clean_field U (art_content article) of
        Inl e \<Rightarrow> Some e
      | Inr content \<Rightarrow>
     (case clean_field U (art_excerpt article) of
        Inl e \<Rightarrow> Some e
      | Inr excerpt \<Rightarrow> None)))"

text \<open>
  Four articles: a well-formed one, one with a blank title, one with a number as title,
  and one with an empty title and a number as excerpt.
\<close>

definition good_article :: article where
  "good_article = \<lparr>art_title = JStr (u ''Fees''), art_content = JStr (u '' HK$2000  per term''),
     art_excerpt = JStr []\<rparr>"

definition untitled_article :: article where
  "untitled_article = \<lparr>art_title = JStr (u ''  ''), art_content = JStr (u ''IELTS is a test.''),
     art_excerpt = JNull\<rparr>"

definition broken_article :: article where
  "broken_article = \<lparr>art_title = JNum 5, art_content = JStr (u ''x''), art_excerpt = JStr []\<rparr>"

definition untitled_broken_article :: article where
  "untitled_broken_article =
     \<lparr>art_title = JStr [], art_content = JStr (u ''IELTS is a test.''), art_excerpt = JNum 5\<rparr>"


section \<open>Notions used in the proofs about text normalisation\<close>

text \<open>The three substitutions of \<open>_clean_text\<close>, as functions on strings.\<close>

abbreviation collapse_spaces :: "ustring \<Rightarrow> ustring" where
  "collapse_spaces \<equiv> re_sub whitespace_run [32]"

abbreviation mask_artifacts :: "unidata \<Rightarrow> ustring \<Rightarrow> ustring" where
  "mask_artifacts U \<equiv> re_sub (formatting_artifact U) [32]"

abbreviation fuse_punct :: "ustring \<Rightarrow> ustring" where
  "fuse_punct \<equiv> re_sub spaced_punct [0xFF0C]"

text \<open>
  The third pattern matches at the start of \<open>s\<close> when the first character after the
  leading whitespace is one of the punctuation marks; the match ends after the
  whitespace that follows the mark.
\<close>

definition punct_ahead :: "ustring \<Rightarrow> bool" where
  "punct_ahead s \<longleftrightarrow> (case dropWhile is_space s of [] \<Rightarrow> False | d # r \<Rightarrow> is_cjk_punct d)"

definition after_punct :: "ustring \<Rightarrow> ustring" where
  "after_punct s = dropWhile is_space (tl (dropWhile is_space s))"

text \<open>No whitespace next to a full-width comma, and no two whitespace characters in a row.\<close>

definition comma_tight :: "uchar \<Rightarrow> uchar \<Rightarrow> bool" where
  "comma_tight a b \<longleftrightarrow> \<not> (is_space a \<and> b = 0xFF0C) \<and> \<not> (a = 0xFF0C \<and> is_space b)"

definition single_spaced :: "uchar \<Rightarrow> uchar \<Rightarrow> bool" where
  "single_spaced a b \<longleftrightarrow> \<not> (is_space a \<and> is_space b)"

text \<open>
  The strings that \<open>_clean_text\<close> produces: only kept characters, the space as the only
  whitespace and the full-width comma as the only punctuation mark of the third pattern,
  single spaces that touch no comma, and no space at either end.
\<close>

definition normalized :: "unidata \<Rightarrow> ustring \<Rightarrow> bool" where
  "normalized U s \<longleftrightarrow>
     list_all (\<lambda>c. kept_char U c \<and> (is_space c = (c = 32) ) \<and> (is_cjk_punct c = (c = 0xFF0C))) s
     \<and> successively comma_tight s \<and> successively single_spaced s
     \<and> (s = [] \<or> (\<not> is_space (hd s) \<and> \<not> is_space (last s)))"


section \<open>Properties of strings\<close>

lemma str_in_iff: "str_in sub s \<longleftrightarrow> (\<exists>p q. s = p @ sub @ q)"
proof (induction s)
  case Nil
  then show ?case by auto
next
  case (Cons c cs)
  show ?case
  proof
    assume "str_in sub (c # cs)"
    then consider "prefix sub (c # cs)" | "str_in sub cs" by auto
    then show "\<exists>p q. c # cs = p @ sub @ q"
    proof cases
      case 1
      then obtain q where "c # cs = sub @ q" by (auto simp: prefix_def)
      then have "c # cs = [] @ sub @ q" by simp
      then show ?thesis by blast
    next
      case 2
      with Cons obtain p q where "cs = p @ sub @ q" by auto
      then have "c # cs = (c # p) @ sub @ q" by simp
      then show ?thesis by blast
    qed
  next
    assume "\<exists>p q. c # cs = p @ sub @ q"
    then obtain p q where pq: "c # cs = p @ sub @ q" by auto
    show "str_in sub (c # cs)"
    proof (cases p)
      case Nil
      with pq have "prefix sub (c # cs)" by (simp add: prefix_def)
      then show ?thesis by simp
    next
      case (Cons a p')
      with pq have "cs = p' @ sub @ q" by simp
      with Cons.IH show ?thesis by auto
    qed
  qed
qed

lemma py_upper_append: "py_upper U (a @ b) = py_upper U a @ py_upper U b"
  by (simp add: py_upper_def)

lemma py_upper_ascii:
  "py_upper U (u ''Australia'') = u ''AUSTRALIA''"
  by (simp add: py_upper_def upper_char_def u_def is_ascii_lower_def)


lemma dropWhile_hd: "s \<noteq> [] \<Longrightarrow> \<not> P (hd s) \<Longrightarrow> dropWhile P s = s"
  by (cases s) auto

lemma strip_id:
  assumes "s \<noteq> []" "\<not> is_space (hd s)" "\<not> is_space (last s)"
  shows "strip s = s"
proof -
  have "dropWhile is_space s = s" using assms(1,2) by (rule dropWhile_hd)
  moreover have "dropWhile is_space (rev s) = rev s"
    using assms(1,3) by (intro dropWhile_hd) (simp_all add: hd_rev)
  ultimately show ?thesis by (simp add: strip_def lstrip_def rstrip_def)
qed


lemma rev_dropWhile_takeWhile:
  "rev (dropWhile P (rev t)) @ rev (takeWhile P (rev t)) = t"
proof -
  have "rev (dropWhile P (rev t)) @ rev (takeWhile P (rev t))
      = rev (takeWhile P (rev t) @ dropWhile P (rev t))"
    by (simp only: rev_append)
  also have "\<dots> = rev (rev t)" by (simp only: takeWhile_dropWhile_id)
  finally show ?thesis by simp
qed

lemma lstrip_decomp: "lstrip s = strip s @ rev (takeWhile is_space (rev (lstrip s)))"
  unfolding strip_def rstrip_def by (rule rev_dropWhile_takeWhile [symmetric])

lemma strip_decomp: "\<exists>a b. s = a @ strip s @ b"
proof -
  have "s = takeWhile is_space s @ lstrip s" by (simp add: lstrip_def)
  with lstrip_decomp [of s]
  have "s = takeWhile is_space s @ strip s @ rev (takeWhile is_space (rev (lstrip s)))"
    by simp
  then show ?thesis by blast
qed

lemma strip_set: "x \<in> set (strip s) \<Longrightarrow> x \<in> set s"
  using strip_decomp [of s] by (metis Un_iff set_append)

lemma strip_successively: "successively R s \<Longrightarrow> successively R (strip s)"
  using strip_decomp [of s] by (metis successively_append_iff)

lemma strip_ends:
  assumes "strip s \<noteq> []"
  shows "\<not> is_space (hd (strip s))" and "\<not> is_space (last (strip s))"
proof -
  have r: "dropWhile is_space (rev (lstrip s)) \<noteq> []"
    using assms by (simp add: strip_def rstrip_def)
  then have "\<not> is_space (hd (dropWhile is_space (rev (lstrip s))))" by (rule hd_dropWhile)
  then show "\<not> is_space (last (strip s))"
    using r by (simp add: strip_def rstrip_def last_rev)
  from lstrip_decomp [of s] assms have "hd (lstrip s) = hd (strip s)" and "lstrip s \<noteq> []"
    by (metis hd_append2, metis append_is_Nil_conv)
  then show "\<not> is_space (hd (strip s))"
    using hd_dropWhile [of is_space s] by (simp add: lstrip_def)
qed

lemma length_strip_le: "length (strip s) \<le> length s"
proof -
  obtain a b where "s = a @ strip s @ b" using strip_decomp by blast
  then have "length s = length a + length (strip s) + length b"
    by (metis length_append add.assoc)
  then show ?thesis by simp
qed

section \<open>Properties of the regular expression search\<close>

lemma rmatch_length: "rmatch as prev s = Some r \<Longrightarrow> length r \<le> length s"
proof (induction as prev s arbitrary: r rule: rmatch.induct)
  case (5 n f as prev c cs)
  then show ?case
    by (fastforce split: if_splits option.splits)
qed (fastforce split: if_splits option.splits)+

lemma rmatch_consumes:
  "rmatch as prev s = Some r \<Longrightarrow> consumes as \<Longrightarrow> length r < length s"
proof (induction as prev s arbitrary: r rule: rmatch.induct)
  case (3 f as prev c cs)
  then show ?case using rmatch_length [of as "Some c" cs r] by (auto split: if_splits)
next
  case (5 n f as prev c cs)
  show ?case
  proof (cases "f c")
    case True
    show ?thesis
    proof (cases "rmatch (Rep (n - 1) f # as) (Some c) cs")
      case None
      with True "5.prems" "5.IH"(2) show ?thesis by (auto split: if_splits)
    next
      case (Some r')
      with True "5.prems" have "r' = r" by simp
      with Some rmatch_length [of "Rep (n - 1) f # as" "Some c" cs r] show ?thesis by simp
    qed
  next
    case False
    with "5.prems" "5.IH"(3) show ?thesis by (auto split: if_splits)
  qed
qed (auto split: if_splits option.splits)

lemma ralt_consumes:
  "ralt re prev s = Some r \<Longrightarrow> list_all consumes re \<Longrightarrow> length r < length s"
  by (induction re) (auto split: option.splits dest: rmatch_consumes)

text \<open>Every pattern of the source takes a character, so its matches are never empty.\<close>

lemma source_patterns_consume:
  "list_all consumes whitespace_run" "list_all consumes newline_run"
  "list_all consumes sentence_end" "list_all consumes heading_marker"
  "list_all consumes (formatting_artifact U)" "list_all consumes spaced_punct"
  "list_all consumes word_pattern" "list_all consumes (long_word U)"
  "list_all (list_all consumes) (important_patterns U)"
  by (simp_all add: whitespace_run_def newline_run_def sentence_end_def heading_marker_def
      formatting_artifact_def spaced_punct_def word_pattern_def long_word_def
      important_patterns_def lit_def rest_of_line_def)

lemma scan_Cons_consumes:
  assumes "list_all consumes re"
  shows "scan re prev (c # cs) =
     (case ralt re prev (c # cs) of
        None \<Rightarrow> pass c (scan re (Some c) cs)
      | Some r \<Rightarrow>
          (let m = take (length (c # cs) - length r) (c # cs);
               (ms, rest) = scan re (Some (last m)) r
           in (([], m) # ms, rest)))"
  using ralt_consumes [OF _ assms, of prev "c # cs"]
  by (auto simp: scan.simps split: option.splits)

lemma foldr_pass_Nil: "foldr pass xs ([], rest) = ([], xs @ rest)"
  by (induction xs) auto

lemma foldr_pass_Cons: "foldr pass xs ((b, m) # ms, rest) = ((xs @ b, m) # ms, rest)"
  by (induction xs) auto

lemma scan_no_match:
  assumes "\<And>c prev cs. c \<in> set xs \<Longrightarrow> ralt re prev (c # cs) = None"
  shows "scan re prev (xs @ s)
         = foldr pass xs (scan re (if xs = [] then prev else Some (last xs)) s)"
  using assms
proof (induction xs arbitrary: prev)
  case Nil
  then show ?case by simp
next
  case (Cons x xs)
  have "ralt re prev (x # (xs @ s)) = None" using Cons.prems by simp
  then have "scan re prev ((x # xs) @ s) = pass x (scan re (Some x) (xs @ s))"
    by (simp add: scan.simps)
  also have "scan re (Some x) (xs @ s)
      = foldr pass xs (scan re (if xs = [] then Some x else Some (last xs)) s)"
    using Cons.IH [of "Some x"] Cons.prems by simp
  finally show ?case by simp
qed

lemma scan_no_match_all:
  assumes "\<And>c prev cs. c \<in> set xs \<Longrightarrow> ralt re prev (c # cs) = None"
  shows "scan re prev xs = ([], xs)"
  using scan_no_match [OF assms, where prev = prev and s = "[]"] by (simp add: foldr_pass_Nil scan.simps)

section \<open>Properties of country extraction\<close>

lemma indicator_found_iff:
  "indicator_found U au inds \<longleftrightarrow> (\<exists>i \<in> set inds. str_in (py_upper U i) au)"
  by (induction inds) auto

lemma scan_countries_find:
  "scan_countries U (py_upper U address) tab =
     (case find (entry_matches U address) tab of Some e \<Rightarrow> fst e | None \<Rightarrow> [])"
  by (induction tab) (auto simp: indicator_found_iff entry_matches_def)

lemma no_entry_matches_empty: "find (entry_matches U []) countries = None"
  by (simp add: countries_def entry_matches_def py_upper_def upper_char_def u_def
      is_ascii_lower_def)

text \<open>
  C8. Country extraction returns the code of the first entry of the table, in table
  order, one of whose indicators occurs in the address when both are upper-cased, and the
  empty string (no code) when no entry has such an indicator. For the address
  "123 Oxford Street, London, England, UK" the result is "UK".
\<close>

theorem extract_country_first_match:
  "extract_country_from_address U address =
     (case find (entry_matches U address) countries of Some e \<Rightarrow> fst e | None \<Rightarrow> [])
   \<and> extract_country_from_address U (u ''123 Oxford Street, London, England, UK'') = u ''UK''"
proof
  show "extract_country_from_address U address =
     (case find (entry_matches U address) countries of Some e \<Rightarrow> fst e | None \<Rightarrow> [])"
  proof (cases "address = []")
    case True
    then show ?thesis
      by (simp add: extract_country_from_address_def no_entry_matches_empty)
  next
    case False
    then show ?thesis
      by (simp add: extract_country_from_address_def scan_countries_find)
  qed
next
  show "extract_country_from_address U (u ''123 Oxford Street, London, England, UK'') = u ''UK''"
    by (simp add: extract_country_from_address_def countries_def py_upper_def upper_char_def
        u_def is_ascii_lower_def)
qed

theorem extract_country_first_match_witness:
  "extract_country_from_address ascii_db (u ''1 Main Road, Toronto, Canada'') = u ''CA''
   \<and> find (entry_matches ascii_db (u ''1 Main Road, Toronto, Canada'')) countries
       = Some (u ''CA'', [u ''Canada'', u ''CA''])
   \<and> extract_country_from_address ascii_db (u ''Rue de Rivoli, Paris'') = []"
  using extract_country_first_match [of ascii_db "u ''1 Main Road, Toronto, Canada''"]
  by (simp add: extract_country_from_address_def countries_def entry_matches_def py_upper_def
      upper_char_def u_def is_ascii_lower_def)

text \<open>
  C10. Matching is plain substring containment on the upper-cased address: an address
  that contains "Australia" in any letter case, and none of the indicators of the UK
  entry, is given the code "US", not "AU", because "US" occurs inside "AUSTRALIA" and
  the US entry comes before the AU entry.
\<close>

theorem australia_is_classified_us:
  assumes "address = pre @ s @ post"
    and "py_upper U s = py_upper U (u ''Australia'')"
    and "\<forall>indicator \<in> set [u ''UK'', u ''United Kingdom'', u ''England'', u ''Scotland'',
            u ''Wales'', u ''Northern Ireland''].
          \<not> str_in (py_upper U indicator) (py_upper U address)"
  shows "extract_country_from_address U address = u ''US''
         \<and> extract_country_from_address U address \<noteq> u ''AU''"
proof -
  have up: "py_upper U address
      = (py_upper U pre @ [65]) @ u ''US'' @ (u ''TRALIA'' @ py_upper U post)"
    using assms(1,2) by (simp add: py_upper_append py_upper_ascii) (simp add: u_def)
  then have us: "str_in (u ''US'') (py_upper U address)"
    unfolding str_in_iff by blast
  have ne: "address \<noteq> []"
  proof
    assume "address = []"
    with up show False by (simp add: py_upper_def)
  qed
  have uk: "\<not> indicator_found U (py_upper U address)
      [u ''UK'', u ''United Kingdom'', u ''England'', u ''Scotland'', u ''Wales'',
       u ''Northern Ireland'']"
    using assms(3) unfolding indicator_found_iff by blast
  have usup: "py_upper U (u ''US'') = u ''US''"
    by (simp add: py_upper_def upper_char_def u_def is_ascii_lower_def)
  have "extract_country_from_address U address = u ''US''"
    using ne uk us usup by (simp add: extract_country_from_address_def countries_def)
  moreover have "u ''US'' \<noteq> u ''AU''" by (simp add: u_def)
  ultimately show ?thesis by simp
qed

theorem australia_is_classified_us_witness:
  "extract_country_from_address ascii_db (u ''12 George St, Sydney, AUStralia'') = u ''US''
   \<and> extract_country_from_address ascii_db (u ''12 George St, Sydney, AUStralia'') \<noteq> u ''AU''"
proof -
  have a: "u ''12 George St, Sydney, AUStralia''
      = u ''12 George St, Sydney, '' @ u ''AUStralia'' @ []"
    by (simp add: u_def)
  have b: "py_upper ascii_db (u ''AUStralia'') = py_upper ascii_db (u ''Australia'')"
    by (simp add: py_upper_def upper_char_def u_def is_ascii_lower_def)
  have c: "\<forall>indicator \<in> set [u ''UK'', u ''United Kingdom'', u ''England'', u ''Scotland'',
            u ''Wales'', u ''Northern Ireland''].
          \<not> str_in (py_upper ascii_db indicator)
              (py_upper ascii_db (u ''12 George St, Sydney, AUStralia''))"
    by (simp add: py_upper_def upper_char_def u_def is_ascii_lower_def)
  show ?thesis
    using australia_is_classified_us [OF a b c] .
qed



section \<open>Properties of the search variations\<close>

lemma subject_variations_eq:
  "subject_variations school xs =
     (if school_name school = [] then []
      else map (\<lambda>t. school_name school @ u '' '' @ t) xs)"
  by (induction xs) auto

lemma variations_unfold:
  "name_variations school
     @ subject_variations school (take 3 (school_popular_subjects school))
     @ keyword_variations self school =
   (if school_name school = [] then []
    else school_name school
         # map (\<lambda>t. school_name school @ u '' '' @ t) (appended_terms self school))"
  by (auto simp: name_variations_def keyword_variations_def appended_terms_def
      subject_variations_eq Let_def split: option.splits)

lemma length_appended_terms: "length (appended_terms self school) \<le> 7"
  by (auto simp: appended_terms_def split: option.splits)

lemma distinct_named:
  "distinct (name # map (\<lambda>t. name @ sep @ t) ts) \<longleftrightarrow> distinct ts" if "sep \<noteq> []"
proof -
  have "inj (\<lambda>t. name @ sep @ t)" by (auto simp: inj_def)
  then have "distinct (map (\<lambda>t. name @ sep @ t) ts) \<longleftrightarrow> distinct ts"
    by (simp add: distinct_map inj_on_def)
  moreover have "name \<notin> set (map (\<lambda>t. name @ sep @ t) ts)"
    using that by auto
  ultimately show ?thesis by simp
qed

text \<open>
  C5 (as amended). The generated sequence has at most 10 elements. It is empty when the
  name is empty; otherwise it lists the variations in the order of generation: the bare
  name, then the name followed by each appended term (the country if there is one, the
  first three popular subjects, the first three keywords of the country). Duplicates are
  not removed: the sequence is free of duplicates exactly when the name is empty or the
  appended terms are pairwise distinct.
\<close>

theorem search_variations_capped_ordered:
  "length (generate_search_variations self school) \<le> 10
   \<and> generate_search_variations self school =
       (if school_name school = [] then []
        else school_name school
             # map (\<lambda>t. school_name school @ u '' '' @ t) (appended_terms self school))
   \<and> (distinct (generate_search_variations self school)
        \<longleftrightarrow> school_name school = [] \<or> distinct (appended_terms self school))"
proof -
  have sp: "u '' '' \<noteq> []" by (simp add: u_def)
  have eq: "generate_search_variations self school =
       (if school_name school = [] then []
        else school_name school
             # map (\<lambda>t. school_name school @ u '' '' @ t) (appended_terms self school))"
    using length_appended_terms [of self school]
    unfolding generate_search_variations_def variations_unfold by simp
  show ?thesis
    unfolding eq using distinct_named [OF sp] length_appended_terms [of self school]
    by simp
qed

theorem search_variations_capped_ordered_witness:
  "generate_search_variations SchoolRAGOptimizer_init
     \<lparr>school_name = u ''Eton'', school_country = u ''UK'',
      school_popular_subjects = [u ''Law'', u ''Art'', u ''Music'', u ''Drama'']\<rparr>
   = [u ''Eton'', u ''Eton UK'', u ''Eton Law'', u ''Eton Art'', u ''Eton Music'',
      u ''Eton united kingdom'', u ''Eton england'', u ''Eton london'']
   \<and> distinct (generate_search_variations SchoolRAGOptimizer_init
     \<lparr>school_name = u ''Eton'', school_country = u ''UK'',
      school_popular_subjects = [u ''Law'', u ''Art'', u ''Music'', u ''Drama'']\<rparr>)"
  using search_variations_capped_ordered [of SchoolRAGOptimizer_init
     "\<lparr>school_name = u ''Eton'', school_country = u ''UK'',
      school_popular_subjects = [u ''Law'', u ''Art'', u ''Music'', u ''Drama'']\<rparr>"]
  by (simp add: appended_terms_def SchoolRAGOptimizer_init_def u_def)

text \<open>With an empty name nothing is generated, whatever the other entries are.\<close>

lemma search_variations_empty_name:
  "generate_search_variations SchoolRAGOptimizer_init
     \<lparr>school_name = [], school_country = u ''UK'',
      school_popular_subjects = [u ''Law'', u ''Law'']\<rparr> = []"
  by (simp add: generate_search_variations_def name_variations_def keyword_variations_def
      SchoolRAGOptimizer_init_def u_def)

text \<open>
  C5 as stated fails: a school whose popular subjects repeat a term gets the same
  variation twice.
\<close>

theorem search_variations_duplicates_counterexample:
  "\<not> distinct (generate_search_variations SchoolRAGOptimizer_init
     \<lparr>school_name = u ''Eton'', school_country = [],
      school_popular_subjects = [u ''Business'', u ''Law'', u ''Business'']\<rparr>)"
  by (simp add: generate_search_variations_def name_variations_def keyword_variations_def
      u_def)


section \<open>Properties of the heading-delimited chunker\<close>

lemma paragraph_chunks_props:
  "c \<in> set (paragraph_chunks title heading i j ps) \<Longrightarrow>
     chunk_heading c = heading \<and> chunk_content c \<in> set ps \<and> 30 \<le> length (chunk_content c)
     \<and> chunk_context c = (if heading = [] then title else title @ u '' - '' @ heading)"
  by (induction ps arbitrary: j) (auto split: if_splits)

lemma section_chunks_props:
  "c \<in> set (section_chunks title i sections) \<Longrightarrow>
     30 \<le> length (chunk_content c)
     \<and> (\<exists>section \<in> set sections.
          50 \<le> length (section_content section)
          \<and> chunk_heading c = section_heading section
          \<and> chunk_content c \<in> set (paragraphs_of (section_content section)))
     \<and> chunk_context c = (if chunk_heading c = [] then title
                          else title @ u '' - '' @ chunk_heading c)"
proof (induction sections arbitrary: i)
  case Nil
  then show ?case by simp
next
  case (Cons sec secs)
  show ?case
  proof (cases "c \<in> set (section_chunks title (Suc i) secs)")
    case True
    from Cons.IH [OF this] show ?thesis by auto
  next
    case False
    with Cons.prems have keep: "\<not> length (section_content sec) < 50"
      and mem: "c \<in> set (paragraph_chunks title (section_heading sec) i 0
                    (paragraphs_of (section_content sec)))"
      by (auto split: if_splits)
    from paragraph_chunks_props [OF mem] keep show ?thesis by auto
  qed
qed

text \<open>
  What holds of every chunk, in terms of the pieces into which the chunker itself cuts
  the body: its text has at least 30 characters and is a paragraph of a piece whose
  content has at least 50; its heading entry is the stripped first line of that piece,
  and its context label is the title followed by " - " and that entry, or the title
  alone when the entry is empty.
\<close>

lemma semantic_chunks_props:
  "\<forall>c \<in> set (create_semantic_chunks content title).
      30 \<le> length (chunk_content c)
    \<and> (\<exists>section \<in> set (re_split heading_marker content).
          50 \<le> length (section_content section)
          \<and> chunk_heading c = section_heading section
          \<and> chunk_content c \<in> set (paragraphs_of (section_content section)))
    \<and> chunk_context c = (if chunk_heading c = [] then title
                         else title @ u '' - '' @ chunk_heading c)"
  unfolding create_semantic_chunks_def using section_chunks_props by blast

lemma semantic_chunks_example:
  "map (\<lambda>c. (chunk_heading c, chunk_length c, chunk_context c))
     (create_semantic_chunks example_body (u ''IELTS guide''))
   = [(u ''Intro'', 61, u ''IELTS guide - Intro''), (u ''Fees'', 58, u ''IELTS guide - Fees'')]"
  by (simp add: create_semantic_chunks_def example_body_def u_def heading_marker_def lit_def
      re_split_def scan.simps is_space_def section_content_def section_heading_def
      paragraphs_of_def strip_def lstrip_def rstrip_def Let_def)

text \<open>
  C9 fails on the code. The chunker takes the first line of every piece as the heading,
  also where the piece has no heading at all, and for a piece of one line it takes that
  line as the content too. So a body that is one paragraph without any heading marker
  yields a chunk whose heading entry is the paragraph itself and whose context label is
  the title followed by " - " and the paragraph, not the title alone.
\<close>

theorem headless_body_text_becomes_heading:
  "create_semantic_chunks headless_body (u ''IELTS guide'')
     = [\<lparr>chunk_id = u ''chunk_0'',
         chunk_heading = headless_body,
         chunk_content = headless_body,
         chunk_context = u ''IELTS guide - '' @ headless_body,
         chunk_length = 60\<rparr>]
   \<and> re_split heading_marker headless_body = [headless_body]
   \<and> map chunk_context (create_semantic_chunks headless_body (u ''IELTS guide''))
       \<noteq> [u ''IELTS guide'']"
  by (simp add: create_semantic_chunks_def headless_body_def u_def heading_marker_def lit_def
      re_split_def scan.simps is_space_def section_content_def section_heading_def
      paragraphs_of_def strip_def lstrip_def rstrip_def Let_def str_nat.simps)


section \<open>Properties of the question and answer pairs\<close>

text \<open>
  The part of C1 that holds: the result is one pair for each heading-bearing chunk among
  the first five, in order, with the chunk's text as answer and its context label as
  context.
\<close>

lemma generate_qa_pairs_heading_pairs:
  "generate_qa_pairs title content chunks
     = map (\<lambda>chunk. \<lparr>qa_question = chunk_heading chunk @ [0x662F, 0x4EC0, 0x9EBC, 0xFF1F],
                      qa_answer = chunk_content chunk,
                      qa_context = chunk_context chunk\<rparr>)
           (filter (\<lambda>chunk. chunk_heading chunk \<noteq> []) (take 5 chunks))"
proof -
  have "heading_pairs cs
     = map (\<lambda>chunk. \<lparr>qa_question = chunk_heading chunk @ [0x662F, 0x4EC0, 0x9EBC, 0xFF1F],
                      qa_answer = chunk_content chunk,
                      qa_context = chunk_context chunk\<rparr>)
           (filter (\<lambda>chunk. chunk_heading chunk \<noteq> []) cs)" for cs
    by (induction cs) simp_all
  then show ?thesis by (simp add: generate_qa_pairs_def)
qed

text \<open>
  C1 fails on the code: the two title-level entries are built (\<open>qa_patterns\<close>) but never
  added to the result, which holds only the pairs of the heading-bearing chunks. For a
  title and a text with no chunk the result is empty.
\<close>

theorem qa_pairs_without_title_level_pairs:
  "generate_qa_pairs (u ''IELTS'') (u ''IELTS is a test.'') [] = []
   \<and> length (qa_patterns (u ''IELTS'') (u ''IELTS is a test.'') []) = 2"
  by (simp add: generate_qa_pairs_def qa_patterns_def)


section \<open>Properties of sentence packing\<close>

lemma ralt_whitespace_run_None: "\<not> is_space c \<Longrightarrow> ralt whitespace_run prev (c # cs) = None"
  by (simp add: whitespace_run_def)

lemma ralt_newline_run_None: "c \<noteq> 10 \<Longrightarrow> ralt newline_run prev (c # cs) = None"
  by (simp add: newline_run_def)

lemma ralt_sentence_end_None: "\<not> is_space c \<Longrightarrow> ralt sentence_end prev (c # cs) = None"
  by (cases prev) (simp_all add: sentence_end_def)

lemma two_sentences_scan:
  assumes A: "\<forall>c \<in> set A. \<not> is_space c" and B: "\<forall>c \<in> set B. \<not> is_space c"
    and ne: "B \<noteq> []"
    and re: "\<And>c prev cs. \<not> is_space c \<Longrightarrow> ralt re prev (c # cs) = None"
         "ralt re (Some 46) (32 # B) = Some B"
  shows "scan re None (A @ [46, 32] @ B) = ([(A @ [46], [32])], B)"
proof -
  have sp: "\<not> is_space 46" by (simp add: is_space_def)
  have nm: "\<And>c prev cs. c \<in> set (A @ [46]) \<Longrightarrow> ralt re prev (c # cs) = None"
    using A sp re(1) by auto
  have 1: "scan re None ((A @ [46]) @ 32 # B)
      = foldr pass (A @ [46]) (scan re (Some 46) (32 # B))"
  proof -
    have "scan re None ((A @ [46]) @ 32 # B)
        = foldr pass (A @ [46])
            (scan re (if A @ [46] = [] then None else Some (last (A @ [46]))) (32 # B))"
      by (rule scan_no_match) (use nm in blast)
    then show ?thesis by simp
  qed
  have "scan re (Some 32) B = ([], B)"
    using scan_no_match_all [where xs = B and re = re] B re(1) by blast
  then have 2: "scan re (Some 46) (32 # B) = ([([], [32])], B)"
    using re(2) ne by (simp add: scan.simps)
  show ?thesis
    using 1 unfolding 2 foldr_pass_Cons by simp
qed

lemma two_sentences_split:
  assumes A: "\<forall>c \<in> set A. \<not> is_space c" and B: "\<forall>c \<in> set B. \<not> is_space c"
    and ne: "B \<noteq> []"
  shows "re_split sentence_end (A @ [46, 32] @ B) = [A @ [46], B]"
proof -
  obtain b B' where b: "B = b # B'" using ne by (cases B) auto
  with B have "\<not> is_space b" by simp
  moreover have "is_space 32" by (simp add: is_space_def)
  ultimately have "ralt sentence_end (Some 46) (32 # B) = Some B"
    by (simp add: sentence_end_def b)
  from two_sentences_scan [OF A B ne ralt_sentence_end_None this]
  show ?thesis by (simp add: re_split_def)
qed

lemma two_sentences_clean:
  assumes A: "\<forall>c \<in> set A. \<not> is_space c" and B: "\<forall>c \<in> set B. \<not> is_space c"
    and ne: "A \<noteq> []" "B \<noteq> []"
  shows "clean_text (A @ [46, 32] @ B) = A @ [46, 32] @ B"
proof -
  obtain b B' where b: "B = b # B'" using ne by (cases B) auto
  with B have "\<not> is_space b" by simp
  moreover have "is_space 32" by (simp add: is_space_def)
  ultimately have "ralt whitespace_run (Some 46) (32 # B) = Some B"
    by (simp add: whitespace_run_def b)
  from two_sentences_scan [OF A B ne(2) ralt_whitespace_run_None this]
  have 1: "re_sub whitespace_run (u '' '') (A @ [46, 32] @ B) = A @ [46, 32] @ B"
    by (simp add: re_sub_def replace_matches_def u_def)
  have "\<not> is_space (hd (A @ [46, 32] @ B))" using A ne by (cases A) auto
  moreover have "\<not> is_space (last (A @ [46, 32] @ B))" using B ne by simp
  ultimately have 2: "strip (A @ [46, 32] @ B) = A @ [46, 32] @ B"
    by (intro strip_id) auto
  have "is_space 10" by (simp add: is_space_def)
  then have nl: "\<forall>c \<in> set (A @ [46, 32] @ B). c \<noteq> 10"
    using A B by auto
  have 3: "re_sub newline_run (u '' '') (A @ [46, 32] @ B) = A @ [46, 32] @ B"
    using scan_no_match_all [where xs = "A @ [46, 32] @ B" and re = newline_run and prev = None] nl ralt_newline_run_None
    by (simp add: re_sub_def replace_matches_def)
  show ?thesis using 1 2 3 by (simp add: clean_text_def)
qed

text \<open>
  The part of C4 that holds: when the loop ends with a non-empty buffer, the buffer is
  emitted, so a text with a non-empty sentence always yields a chunk.
\<close>

lemma pack_sentences_emits:
  "current_chunk \<noteq> [] \<or> (\<exists>s \<in> set sentences. s \<noteq> []) \<Longrightarrow>
     pack_sentences U english_name current_chunk chunk_count sentences \<noteq> []"
proof (induction sentences arbitrary: current_chunk chunk_count)
  case Nil
  then show ?case by simp
next
  case (Cons sentence sentences)
  show ?case
  proof (cases "current_chunk = []")
    case True
    with Cons.prems have "sentence \<noteq> [] \<or> (\<exists>s \<in> set sentences. s \<noteq> [])" by auto
    with Cons.IH [of sentence chunk_count] True show ?thesis by simp
  next
    case False
    with Cons.IH [of "current_chunk @ u '' '' @ sentence" chunk_count] show ?thesis by simp
  qed
qed

text \<open>
  What the size test does guarantee: if no sentence is longer than 1000 characters, no
  chunk is longer than 1001.
\<close>

lemma pack_sentences_bound:
  "length current_chunk \<le> 1001 \<Longrightarrow> \<forall>s \<in> set sentences. length s \<le> 1000 \<Longrightarrow>
     \<forall>c \<in> set (pack_sentences U english_name current_chunk chunk_count sentences).
        length (sc_content c) \<le> 1001"
proof (induction sentences arbitrary: current_chunk chunk_count)
  case Nil
  then show ?case
    using length_strip_le [of current_chunk] by (simp add: content_chunk_def)
next
  case (Cons sentence sentences)
  from Cons.prems have len: "length sentence \<le> 1000"
    and rest: "\<forall>s \<in> set sentences. length s \<le> 1000" by simp_all
  have sp: "length (u '' '') = 1" by (simp add: u_def)
  show ?case
  proof (cases "length current_chunk + length sentence > 1000 \<and> current_chunk \<noteq> []")
    case True
    have "length sentence \<le> 1001" using len by simp
    from Cons.IH [OF this rest, of "chunk_count + 1"] True Cons.prems(1) show ?thesis
      using length_strip_le [of current_chunk] by (simp add: content_chunk_def)
  next
    case False
    show ?thesis
    proof (cases "current_chunk = []")
      case True
      have "length sentence \<le> 1001" using len by simp
      from Cons.IH [OF this rest, of chunk_count] True show ?thesis by simp
    next
      case ne: False
      with False have "length (current_chunk @ u '' '' @ sentence) \<le> 1001"
        using sp by simp
      from Cons.IH [OF this rest, of chunk_count] False ne show ?thesis by simp
    qed
  qed
qed

text \<open>
  C4 fails on the code. The test for emitting the buffer compares
  \<open>len(current_chunk) + len(sentence)\<close> with 1000, but the sentence is appended after a
  separating space, so two sentences of 500 characters each are packed into one chunk of
  1001 characters.
\<close>

theorem packed_chunk_exceeds_limit:
  "content_chunks ascii_db (u ''Law'') (replicate 499 97 @ [46, 32] @ replicate 500 98)
     = [\<lparr>sc_chunk_id = u ''law_content_1'', sc_title = u ''Law - Content Part 1'',
         sc_type = u ''content'',
         sc_content = replicate 499 97 @ [46, 32] @ replicate 500 98\<rparr>]
   \<and> re_split sentence_end (clean_text (replicate 499 97 @ [46, 32] @ replicate 500 98))
     = [replicate 499 97 @ [46], replicate 500 98]
   \<and> length (replicate 499 97 @ [46, 32] @ replicate 500 98) = 1001"
proof -
  let ?A = "replicate 499 (97::nat)" and ?B = "replicate 500 (98::nat)"
  have A: "\<forall>c \<in> set ?A. \<not> is_space c" and B: "\<forall>c \<in> set ?B. \<not> is_space c"
    by (simp_all add: is_space_def)
  have ne: "?A \<noteq> []" "?B \<noteq> []" by simp_all
  have cl: "clean_text (?A @ [46, 32] @ ?B) = ?A @ [46, 32] @ ?B"
    by (rule two_sentences_clean [OF A B ne])
  have sp: "re_split sentence_end (?A @ [46, 32] @ ?B) = [?A @ [46], ?B]"
    by (rule two_sentences_split [OF A B ne(2)])
  have st: "strip (?A @ [46] @ u '' '' @ ?B) = ?A @ [46, 32] @ ?B"
    using cl by (simp add: u_def strip_id  is_space_def)
  have "str_nat 1 = [49]" by (simp add: str_nat.simps)
  then show ?thesis
    unfolding content_chunks_def cl sp
    using st by (simp add: content_chunk_def py_lower_def
        spaces_to_underscores_def u_def is_ascii_upper_def)
qed


section \<open>Properties of keyword extraction\<close>

text \<open>
  Sorting makes the result independent of the iteration order of the set, which is why
  \<open>sorted(list(keywords))\<close> is modelled by sorting the list of elements.
\<close>

lemma sorted_set_order_irrelevant:
  assumes "valid_set_order set_order"
  shows "sort (set_order xs) = sort (remdups xs)"
proof -
  have "distinct (set_order xs)" "set (set_order xs) = set xs"
    using assms by (simp_all add: valid_set_order_def)
  then have "sort (set_order xs) = sorted_list_of_set (set xs)"
    by (metis sorted_list_of_set_sort_remdups distinct_remdups_id)
  then show ?thesis by (simp add: sorted_list_of_set_sort_remdups)
qed

lemma length_top_words: "length (top_words self text) \<le> 20"
  by (simp add: top_words_def)

lemma length_frequent_words: "length (frequent_words self text) \<le> 20"
proof -
  have "length (frequent_words self text) \<le> length (top_words self text)"
    by (simp add: frequent_words_def)
  with length_top_words [of self "text"] show ?thesis by simp
qed

text \<open>
  C2 (as amended). The frequency channel contributes at most 20 entries, so the result
  of the article keyword extraction has at most 20 entries more than there are distinct
  pattern-channel matches; the school keyword extraction returns at most 20 entries.
\<close>

theorem keywords_bound:
  "length (frequent_words self text) \<le> 20
   \<and> length (RAGOptimizer_extract_keywords self U text)
       \<le> card (set (pattern_keywords U text)) + 20
   \<and> length (SchoolRAGOptimizer_extract_keywords set_order U text) \<le> 20"
proof -
  let ?P = "pattern_keywords U text" and ?F = "frequent_words self text"
  have "length (RAGOptimizer_extract_keywords self U text) = card (set ?P \<union> set ?F)"
    by (simp add: RAGOptimizer_extract_keywords_def length_remdups_card_conv)
  also have "\<dots> \<le> card (set ?P) + card (set ?F)" by (rule card_Un_le)
  also have "card (set ?F) \<le> length ?F" by (rule card_length)
  finally have "length (RAGOptimizer_extract_keywords self U text)
      \<le> card (set ?P) + length ?F" by simp
  with length_frequent_words [of self "text"]
  have 1: "length (RAGOptimizer_extract_keywords self U text) \<le> card (set ?P) + 20"
    by simp
  have 2: "length (SchoolRAGOptimizer_extract_keywords set_order U text) \<le> 20"
    by (simp add: SchoolRAGOptimizer_extract_keywords_def Let_def)
  from 1 2 length_frequent_words [of self "text"] show ?thesis by simp
qed

text \<open>
  C2 as stated fails: the pattern channel is not capped, and a text that names 21
  examinations by their acronyms yields 21 keywords.
\<close>

theorem keywords_exceed_twenty_counterexample:
  "length (RAGOptimizer_extract_keywords RAGOptimizer_init ascii_db example_acronyms) = 21
   \<and> \<not> length (RAGOptimizer_extract_keywords RAGOptimizer_init ascii_db example_acronyms) \<le> 20"
  by (simp add: RAGOptimizer_extract_keywords_def pattern_keywords_def important_patterns_def
      frequent_words_def top_words_def word_pattern_def findall_def scan.simps lit_def
      rest_of_line_def is_colon_def is_digit_def is_ascii_digit_def is_ascii_upper_def
      is_ascii_lower_def is_space_def strip_def lstrip_def rstrip_def example_acronyms_def
      u_def ascii_db_def RAGOptimizer_init_def)

lemma valid_set_order_remdups: "valid_set_order remdups"
  by (simp add: valid_set_order_def)

lemma valid_set_order_rev_remdups: "valid_set_order (rev \<circ> remdups)"
  by (simp add: valid_set_order_def)

text \<open>
  C7 fails on the code. The school keyword list is the first 20 elements of a set in
  iteration order, which changes from one run to the next; two admissible orders give
  two different keyword lists for the same text. (The article pipeline sorts its
  keywords, see \<open>sorted_set_order_irrelevant\<close>.)
\<close>

theorem school_keywords_depend_on_set_order:
  "valid_set_order remdups \<and> valid_set_order (rev \<circ> remdups)
   \<and> SchoolRAGOptimizer_extract_keywords remdups ascii_db (u ''Alpha college, beta campus'')
       = [u ''alpha'', u ''beta'']
   \<and> SchoolRAGOptimizer_extract_keywords (rev \<circ> remdups) ascii_db
         (u ''Alpha college, beta campus'')
       = [u ''beta'', u ''alpha'']"
  by (simp add: valid_set_order_remdups valid_set_order_rev_remdups
      SchoolRAGOptimizer_extract_keywords_def SchoolRAGOptimizer_clean_text_def
      long_word_def school_stopwords_def py_lower_def findall_def re_sub_def replace_matches_def scan.simps
      whitespace_run_def newline_run_def is_word_def is_ascii_digit_def is_ascii_upper_def
      at_boundary_def is_ascii_lower_def is_space_def strip_def lstrip_def rstrip_def
      u_def ascii_db_def)


section \<open>Properties of document assembly\<close>

lemma skipped_single:
  assumes "clean_field U (art_title a) = Inr [] \<or> clean_field U (art_content a) = Inr []"
  shows "optimize_single_article self U a index
         = (case field_error U a of None \<Rightarrow> Inr None | Some e \<Rightarrow> Inl e)"
  using assms
  by (auto simp: optimize_single_article_def field_error_def split: sum.splits)

lemma optimize_loop_append:
  "optimize_loop self U i (xs @ ys) state
     = optimize_loop self U (i + length xs) ys (optimize_loop self U i xs state)"
proof (induction xs arbitrary: i state)
  case Nil
  then show ?case by simp
next
  case (Cons x xs)
  obtain docs log where st: "state = (docs, log)" by (cases state)
  show ?case
    unfolding st using Cons.IH [of "i + 1"]
    by (simp split: sum.split option.split)
qed

text \<open>
  C6 (as amended). A record whose title or body is empty after normalisation is left out
  of the output without stopping the batch and without an exception leaving the batch
  function: the batch gives exactly the documents and the log of the records before it
  and after it, each processed under its own number, and for the record itself no
  document. The emptiness is not logged: the record adds a log entry only when
  normalising its title, body or excerpt raises an exception, and then exactly one, with
  the number of the record and the exception.
\<close>

theorem skipped_record_excluded:
  assumes "clean_field U (art_title a) = Inr [] \<or> clean_field U (art_content a) = Inr []"
  shows "optimize_articles_for_rag self U (before @ a # after)
         = batch_result_of
             (optimize_loop self U (length before + 1) after
                (fst (optimize_loop self U 0 before ([], [])),
                 snd (optimize_loop self U 0 before ([], []))
                   @ (case field_error U a of
                        None \<Rightarrow> []
                      | Some e \<Rightarrow> [(length before + 1, e)])))"
proof -
  obtain docs log where st: "optimize_loop self U 0 before ([], []) = (docs, log)"
    by (cases "optimize_loop self U 0 before ([], [])")
  have "optimize_loop self U (length before) (a # after) (docs, log)
      = optimize_loop self U (length before + 1) after
          (docs, log @ (case field_error U a of
                          None \<Rightarrow> []
                        | Some e \<Rightarrow> [(length before + 1, e)]))"
    using skipped_single [OF assms, of self "length before + 1"]
    by (cases "field_error U a") simp_all
  then show ?thesis
    by (simp add: optimize_articles_for_rag_def optimize_loop_append [of _ _ _ before] st)
qed

text \<open>Evaluation of the example articles.\<close>

lemmas eval_simps =
  RAGOptimizer_clean_text_def formatting_artifact_def kept_char_def spaced_punct_def
  is_cjk_punct_def whitespace_run_def re_sub_def replace_matches_def scan.simps
  is_word_def is_ascii_digit_def is_ascii_upper_def is_ascii_lower_def is_space_def
  strip_def lstrip_def rstrip_def u_def ascii_db_def Let_def

lemma clean1: "RAGOptimizer_clean_text ascii_db (u '' HK$2000  per term'') = u ''HK 2000 per term''"
  by (simp add: eval_simps)

lemma clean2: "RAGOptimizer_clean_text ascii_db (u ''IELTS is a test.'') = u ''IELTS is a test''"
  by (simp add: eval_simps)

lemma clean3: "RAGOptimizer_clean_text ascii_db (u ''  '') = []"
  by (simp add: eval_simps)

lemma clean4: "RAGOptimizer_clean_text ascii_db (u ''Fees'') = u ''Fees''"
  by (simp add: eval_simps)

lemma kw1: "RAGOptimizer_extract_keywords RAGOptimizer_init ascii_db (u ''Fees  HK 2000 per term'') = [u ''HK'']"
  by (simp add: RAGOptimizer_extract_keywords_def pattern_keywords_def important_patterns_def
      frequent_words_def top_words_def word_pattern_def findall_def scan.simps lit_def
      rest_of_line_def is_colon_def is_digit_def is_ascii_digit_def is_ascii_upper_def
      is_ascii_lower_def is_space_def strip_def lstrip_def rstrip_def
      u_def ascii_db_def RAGOptimizer_init_def)

lemma ch1: "create_semantic_chunks (u ''HK 2000 per term'') (u ''Fees'') = []"
  by (simp add: create_semantic_chunks_def u_def heading_marker_def lit_def
      re_split_def scan.simps is_space_def section_content_def section_heading_def
      paragraphs_of_def strip_def lstrip_def rstrip_def Let_def)

lemma sm1: "create_summary (u ''HK 2000 per term'') = u ''HK 2000 per term''"
  by (simp add: create_summary_def truncate200_def paragraphs_of_def u_def is_space_def strip_def lstrip_def rstrip_def)

lemma good_doc:
  "optimize_single_article RAGOptimizer_init ascii_db good_article 1 = Inr (Some
     \<lparr>doc_id = u ''linkedu_0001'', doc_title = u ''Fees'', doc_summary = u ''HK 2000 per term'',
      doc_full_content = u ''HK 2000 per term'', doc_keywords = [u ''HK''],
      doc_semantic_chunks = [], doc_qa_pairs = []\<rparr>)"
proof -
  have t: "clean_field ascii_db (art_title good_article) = Inr (u ''Fees'')"
    using clean4 by (simp add: good_article_def clean_field_def u_def)
  have c: "clean_field ascii_db (art_content good_article) = Inr (u ''HK 2000 per term'')"
    using clean1 by (simp add: good_article_def clean_field_def u_def)
  have e: "clean_field ascii_db (art_excerpt good_article) = Inr []"
    by (simp add: good_article_def clean_field_def)
  have i: "document_id 1 = u ''linkedu_0001''"
    by (simp add: document_id_def str_nat.simps u_def numeral_3_eq_3)
  show ?thesis
    unfolding optimize_single_article_def t c e
    using i kw1 ch1 sm1 by (simp add: generate_qa_pairs_def u_def)
qed

text \<open>
  C6 as stated fails: a batch of one article with a blank title gives no document and
  an empty log.
\<close>

theorem skipped_record_not_logged_counterexample:
  "documents (optimize_articles_for_rag RAGOptimizer_init ascii_db [untitled_article]) = []
   \<and> error_log (optimize_articles_for_rag RAGOptimizer_init ascii_db [untitled_article]) = []"
proof -
  have "optimize_single_article RAGOptimizer_init ascii_db untitled_article 1 = Inr None"
    by (simp add: optimize_single_article_def untitled_article_def clean_field_def clean2 clean3)
  then show ?thesis
    by (simp add: optimize_articles_for_rag_def batch_result_of_def)
qed

theorem skipped_record_excluded_witness:
  "optimize_articles_for_rag RAGOptimizer_init ascii_db
     [good_article, untitled_article, broken_article]
   = \<lparr>total_documents = 1,
      documents = [\<lparr>doc_id = u ''linkedu_0001'', doc_title = u ''Fees'',
                    doc_summary = u ''HK 2000 per term'',
                    doc_full_content = u ''HK 2000 per term'', doc_keywords = [u ''HK''],
                    doc_semantic_chunks = [], doc_qa_pairs = []\<rparr>],
      error_log = [(3, AttributeError)]\<rparr>
   \<and> optimize_articles_for_rag RAGOptimizer_init ascii_db [untitled_broken_article]
   = \<lparr>total_documents = 0, documents = [], error_log = [(1, AttributeError)]\<rparr>"
proof
  have t: "clean_field ascii_db (art_title untitled_article) = Inr []"
    by (simp add: untitled_article_def clean_field_def clean3)
  have c: "clean_field ascii_db (art_content untitled_article) = Inr (u ''IELTS is a test'')"
    using clean2 by (simp add: untitled_article_def clean_field_def u_def)
  have e: "clean_field ascii_db (art_excerpt untitled_article) = Inr []"
    by (simp add: untitled_article_def clean_field_def)
  have f: "field_error ascii_db untitled_article = None"
    by (simp add: field_error_def t c e)
  have b: "optimize_single_article RAGOptimizer_init ascii_db broken_article 3
      = Inl AttributeError"
    by (simp add: optimize_single_article_def broken_article_def clean_field_def)
  have "optimize_articles_for_rag RAGOptimizer_init ascii_db
          ([good_article] @ untitled_article # [broken_article])
        = batch_result_of
            (optimize_loop RAGOptimizer_init ascii_db (length [good_article] + 1)
               [broken_article]
               (fst (optimize_loop RAGOptimizer_init ascii_db 0 [good_article] ([], [])),
                snd (optimize_loop RAGOptimizer_init ascii_db 0 [good_article] ([], []))
                  @ (case field_error ascii_db untitled_article of
                       None \<Rightarrow> []
                     | Some e \<Rightarrow> [(length [good_article] + 1, e)])))"
    by (rule skipped_record_excluded) (simp add: t)
  then show "optimize_articles_for_rag RAGOptimizer_init ascii_db
     [good_article, untitled_article, broken_article]
   = \<lparr>total_documents = 1,
      documents = [\<lparr>doc_id = u ''linkedu_0001'', doc_title = u ''Fees'',
                    doc_summary = u ''HK 2000 per term'',
                    doc_full_content = u ''HK 2000 per term'', doc_keywords = [u ''HK''],
                    doc_semantic_chunks = [], doc_qa_pairs = []\<rparr>],
      error_log = [(3, AttributeError)]\<rparr>"
    using good_doc b by (simp add: f batch_result_of_def numeral_3_eq_3)
next
  have t: "clean_field ascii_db (art_title untitled_broken_article) = Inr []"
    by (simp add: untitled_broken_article_def clean_field_def)
  have c: "clean_field ascii_db (art_content untitled_broken_article)
      = Inr (u ''IELTS is a test'')"
    using clean2 by (simp add: untitled_broken_article_def clean_field_def u_def)
  have e: "clean_field ascii_db (art_excerpt untitled_broken_article) = Inl AttributeError"
    by (simp add: untitled_broken_article_def clean_field_def)
  have f: "field_error ascii_db untitled_broken_article = Some AttributeError"
    by (simp add: field_error_def t c e)
  have "optimize_articles_for_rag RAGOptimizer_init ascii_db
          ([] @ untitled_broken_article # [])
        = batch_result_of
            (optimize_loop RAGOptimizer_init ascii_db (length ([] :: article list) + 1) []
               (fst (optimize_loop RAGOptimizer_init ascii_db 0 [] ([], [])),
                snd (optimize_loop RAGOptimizer_init ascii_db 0 [] ([], []))
                  @ (case field_error ascii_db untitled_broken_article of
                       None \<Rightarrow> []
                     | Some e \<Rightarrow> [(length ([] :: article list) + 1, e)])))"
    by (rule skipped_record_excluded) (simp add: t)
  then show "optimize_articles_for_rag RAGOptimizer_init ascii_db [untitled_broken_article]
   = \<lparr>total_documents = 0, documents = [], error_log = [(1, AttributeError)]\<rparr>"
    by (simp add: f batch_result_of_def)
qed


section \<open>Properties of text normalisation\<close>

subsection \<open>The matcher on the patterns of the normaliser\<close>

lemma rmatch_Rep_single:
  "rmatch [Rep n f] prev s
     = (if n \<le> length (takeWhile f s) then Some (dropWhile f s) else None)"
proof (induction s arbitrary: n prev)
  case Nil
  then show ?case by simp
next
  case (Cons c cs)
  show ?case
  proof (cases "f c")
    case True
    have "rmatch [Rep (n - 1) f] (Some c) cs
        = (if n - 1 \<le> length (takeWhile f cs) then Some (dropWhile f cs) else None)"
      by (rule Cons.IH)
    with True show ?thesis by (auto split: option.splits)
  next
    case False
    then show ?thesis by simp
  qed
qed

lemma rmatch_spaced:
  assumes "\<And>c. g c \<Longrightarrow> \<not> f c"
  shows "rmatch [Rep 0 f, Chr g, Rep 0 f] prev s
     = (case dropWhile f s of
          [] \<Rightarrow> None
        | d # r \<Rightarrow> if g d then Some (dropWhile f r) else None)"
proof (induction s arbitrary: prev)
  case Nil
  then show ?case by simp
next
  case (Cons c cs)
  show ?case
  proof (cases "f c")
    case True
    then have "\<not> g c" using assms by blast
    with True Cons.IH [of "Some c"] show ?thesis
      by (auto split: option.splits list.splits)
  next
    case False
    then show ?thesis
      by (simp add: rmatch_Rep_single)
  qed
qed

lemma scan_prev_irrelevant:
  assumes "\<And>s. ralt re p s = ralt re p' s"
  shows "scan re p s = scan re p' s"
  by (cases s) (simp_all add: scan.simps assms)

lemma replace_matches_pass: "replace_matches repl (pass c found) = c # replace_matches repl found"
  by (cases "(c, found)" rule: pass.cases) (simp_all add: replace_matches_def)

lemma re_sub_Nil: "re_sub re repl [] = []"
  by (simp add: re_sub_def replace_matches_def scan.simps)

lemma re_sub_no_match:
  assumes "ralt re None (c # cs) = None" and "\<And>p s. ralt re p s = ralt re None s"
  shows "re_sub re repl (c # cs) = c # re_sub re repl cs"
proof -
  have "scan re (Some c) cs = scan re None cs"
    by (rule scan_prev_irrelevant) (use assms(2) in simp)
  then show ?thesis
    using assms(1) by (simp add: re_sub_def scan.simps replace_matches_pass)
qed

lemma re_sub_match:
  assumes "ralt re None (c # cs) = Some r" and "length r \<le> length cs"
    and "\<And>p s. ralt re p s = ralt re None s"
  shows "re_sub re repl (c # cs) = repl @ re_sub re repl r"
proof -
  let ?m = "take (length (c # cs) - length r) (c # cs)"
  have eq: "scan re (Some (last ?m)) r = scan re None r"
    by (rule scan_prev_irrelevant) (use assms(3) in simp)
  obtain ms rest where sc: "scan re None r = (ms, rest)"
    by (cases "scan re None r")
  have "scan re None (c # cs) = (([], ?m) # ms, rest)"
    using assms(1,2) eq sc by (simp add: scan.simps)
  then show ?thesis
    by (simp add: re_sub_def replace_matches_def sc)
qed


subsection \<open>The three substitutions as recursive functions\<close>

lemma is_space_32: "is_space 32"
  by (simp add: is_space_def)

lemma not_space_comma: "\<not> is_space 0xFF0C"
  by (simp add: is_space_def)

lemma punct_not_space: "is_cjk_punct c \<Longrightarrow> \<not> is_space c"
  by (auto simp: is_cjk_punct_def is_space_def)

lemma punct_comma: "is_cjk_punct 0xFF0C"
  by (simp add: is_cjk_punct_def)

lemma not_punct_32: "\<not> is_cjk_punct 32"
  by (simp add: is_cjk_punct_def)

lemma kept_space: "is_space c \<Longrightarrow> kept_char U c"
  by (simp add: kept_char_def)

lemma kept_comma: "kept_char U 0xFF0C"
  by (simp add: kept_char_def)

lemma ralt_whitespace_run:
  "ralt whitespace_run p s
     = (case s of [] \<Rightarrow> None
        | c # cs \<Rightarrow> if is_space c then Some (dropWhile is_space cs) else None)"
  by (cases s) (simp_all add: whitespace_run_def rmatch_Rep_single)

lemma ralt_formatting_artifact:
  "ralt (formatting_artifact U) p s
     = (case s of [] \<Rightarrow> None | c # cs \<Rightarrow> if kept_char U c then None else Some cs)"
  by (cases s) (simp_all add: formatting_artifact_def)

lemma ralt_spaced_punct:
  "ralt spaced_punct p s = (if punct_ahead s then Some (after_punct s) else None)"
proof -
  have "rmatch [Rep 0 is_space, Chr is_cjk_punct, Rep 0 is_space] p s
     = (case dropWhile is_space s of
          [] \<Rightarrow> None
        | d # r \<Rightarrow> if is_cjk_punct d then Some (dropWhile is_space r) else None)"
    by (rule rmatch_spaced) (rule punct_not_space)
  then show ?thesis
    unfolding spaced_punct_def punct_ahead_def after_punct_def
    by (cases "dropWhile is_space s") (simp_all del: dropWhile_eq_Nil_conv)
qed

lemma length_after_punct: "length (after_punct (c # cs)) \<le> length cs"
proof -
  have "length (after_punct (c # cs)) \<le> length (tl (dropWhile is_space (c # cs)))"
    unfolding after_punct_def by (rule length_dropWhile_le)
  also have "\<dots> \<le> length (tl (c # cs))"
    using length_dropWhile_le [of is_space "c # cs"] by (simp del: dropWhile.simps)
  finally show ?thesis by simp
qed

lemma collapse_Nil: "collapse_spaces [] = []"
  by (rule re_sub_Nil)

lemma collapse_space: "is_space c \<Longrightarrow> collapse_spaces (c # cs) = 32 # collapse_spaces (dropWhile is_space cs)"
  using re_sub_match [of whitespace_run c cs "dropWhile is_space cs" "[32]"]
  by (simp add: ralt_whitespace_run length_dropWhile_le)

lemma collapse_other: "\<not> is_space c \<Longrightarrow> collapse_spaces (c # cs) = c # collapse_spaces cs"
  using re_sub_no_match [of whitespace_run c cs "[32]"]
  by (simp add: ralt_whitespace_run)

lemma mask_artifacts_map:
  "mask_artifacts U s = map (\<lambda>c. if kept_char U c then c else 32) s"
proof (induction s)
  case Nil
  then show ?case by (simp add: re_sub_Nil)
next
  case (Cons c cs)
  show ?case
  proof (cases "kept_char U c")
    case True
    then have "mask_artifacts U (c # cs) = c # mask_artifacts U cs"
      using re_sub_no_match [of "formatting_artifact U" c cs "[32]"]
      by (simp add: ralt_formatting_artifact)
    with True Cons show ?thesis by simp
  next
    case False
    then have "mask_artifacts U (c # cs) = [32] @ mask_artifacts U cs"
      using re_sub_match [of "formatting_artifact U" c cs cs "[32]"]
      by (simp add: ralt_formatting_artifact)
    with False Cons show ?thesis by simp
  qed
qed

lemma fuse_Nil: "fuse_punct [] = []"
  by (rule re_sub_Nil)

lemma fuse_match:
  "punct_ahead (c # cs) \<Longrightarrow> fuse_punct (c # cs) = 0xFF0C # fuse_punct (after_punct (c # cs))"
  using re_sub_match [of spaced_punct c cs "after_punct (c # cs)" "[0xFF0C]"]
  by (simp add: ralt_spaced_punct length_after_punct)

lemma fuse_other:
  "\<not> punct_ahead (c # cs) \<Longrightarrow> fuse_punct (c # cs) = c # fuse_punct cs"
  using re_sub_no_match [of spaced_punct c cs "[0xFF0C]"]
  by (simp add: ralt_spaced_punct)


subsection \<open>Lists\<close>

lemma successively_dropWhile: "successively R s \<Longrightarrow> successively R (dropWhile P s)"
proof -
  assume "successively R s"
  then have "successively R (takeWhile P s @ dropWhile P s)" by simp
  then show ?thesis unfolding successively_append_iff by blast
qed

lemma successively_tl: "successively R s \<Longrightarrow> successively R (tl s)"
  by (cases s) (auto simp: successively_Cons)

lemma dropWhile_hd_not: "dropWhile P s \<noteq> [] \<Longrightarrow> \<not> P (hd (dropWhile P s))"
  by (rule hd_dropWhile)

subsection \<open>Collapsing whitespace\<close>

lemma collapse_hd:
  "s \<noteq> [] \<Longrightarrow>
     collapse_spaces s \<noteq> [] \<and> hd (collapse_spaces s) = (if is_space (hd s) then 32 else hd s)"
  by (cases s) (auto simp: collapse_space collapse_other)

lemma collapse_set:
  "x \<in> set (collapse_spaces s) \<Longrightarrow> x = 32 \<or> (x \<in> set s \<and> \<not> is_space x)"
proof (induction s rule: length_induct)
  case (1 s)
  show ?case
  proof (cases s)
    case Nil
    with "1.prems" show ?thesis by (simp add: collapse_Nil)
  next
    case (Cons c cs)
    show ?thesis
    proof (cases "is_space c")
      case True
      let ?t = "dropWhile is_space cs"
      have "length ?t < length s" using Cons length_dropWhile_le [of is_space cs] by simp
      with "1.IH" have ih: "x \<in> set (collapse_spaces ?t) \<Longrightarrow> x = 32 \<or> (x \<in> set ?t \<and> \<not> is_space x)"
        by blast
      from "1.prems" Cons True have "x = 32 \<or> x \<in> set (collapse_spaces ?t)"
        by (simp add: collapse_space)
      with ih show ?thesis using Cons set_dropWhileD [of x is_space cs] by auto
    next
      case False
      have "length cs < length s" using Cons by simp
      with "1.IH" have ih: "x \<in> set (collapse_spaces cs) \<Longrightarrow> x = 32 \<or> (x \<in> set cs \<and> \<not> is_space x)"
        by blast
      from "1.prems" Cons False have "x = c \<or> x \<in> set (collapse_spaces cs)"
        by (simp add: collapse_other)
      with ih False show ?thesis using Cons by auto
    qed
  qed
qed

lemma collapse_single_spaced: "successively single_spaced (collapse_spaces s)"
proof (induction s rule: length_induct)
  case (1 s)
  show ?case
  proof (cases s)
    case Nil
    then show ?thesis by (simp add: collapse_Nil)
  next
    case (Cons c cs)
    show ?thesis
    proof (cases "is_space c")
      case True
      let ?t = "dropWhile is_space cs"
      have "length ?t < length s" using Cons length_dropWhile_le [of is_space cs] by simp
      with "1.IH" have ih: "successively single_spaced (collapse_spaces ?t)" by blast
      have "collapse_spaces ?t = [] \<or> single_spaced 32 (hd (collapse_spaces ?t))"
      proof (cases "?t = []")
        case True
        then show ?thesis by (simp add: collapse_Nil del: dropWhile_eq_Nil_conv)
      next
        case False
        then have "\<not> is_space (hd ?t)" by (rule hd_dropWhile)
        with collapse_hd [OF False] show ?thesis by (simp add: single_spaced_def)
      qed
      with ih show ?thesis
        using Cons True by (simp add: collapse_space successively_Cons)
    next
      case False
      have "length cs < length s" using Cons by simp
      with "1.IH" have ih: "successively single_spaced (collapse_spaces cs)" by blast
      with False show ?thesis
        using Cons by (simp add: collapse_other successively_Cons single_spaced_def)
    qed
  qed
qed

lemma space_run_next:
  "successively comma_tight (c # cs) \<Longrightarrow> is_space c \<Longrightarrow> dropWhile is_space cs = d # r
     \<Longrightarrow> d \<noteq> 0xFF0C"
proof (induction cs arbitrary: c)
  case Nil
  then show ?case by simp
next
  case (Cons x xs)
  from Cons.prems(1) have ct: "comma_tight c x" and rest: "successively comma_tight (x # xs)"
    by simp_all
  show ?case
  proof (cases "is_space x")
    case True
    with Cons.prems(3) have "dropWhile is_space xs = d # r" by simp
    from Cons.IH [OF rest True this] show ?thesis .
  next
    case False
    with Cons.prems(3) have "d = x" by simp
    with ct Cons.prems(2) show ?thesis by (auto simp: comma_tight_def)
  qed
qed

lemma collapse_comma_tight:
  "successively comma_tight s \<Longrightarrow> successively comma_tight (collapse_spaces s)"
proof (induction s rule: length_induct)
  case (1 s)
  show ?case
  proof (cases s)
    case Nil
    then show ?thesis by (simp add: collapse_Nil)
  next
    case (Cons c cs)
    from "1.prems" Cons have tail: "successively comma_tight cs"
      by (auto simp: successively_Cons)
    show ?thesis
    proof (cases "is_space c")
      case True
      let ?t = "dropWhile is_space cs"
      have "length ?t < length s" using Cons length_dropWhile_le [of is_space cs] by simp
      moreover have "successively comma_tight ?t" using tail by (rule successively_dropWhile)
      ultimately have ih: "successively comma_tight (collapse_spaces ?t)"
        using "1.IH" by blast
      have "collapse_spaces ?t = [] \<or> comma_tight 32 (hd (collapse_spaces ?t))"
      proof (cases ?t)
        case Nil
        then show ?thesis by (simp add: collapse_Nil del: dropWhile_eq_Nil_conv)
      next
        case (Cons d r)
        then have "\<not> is_space d" using hd_dropWhile [of is_space cs] by simp
        moreover have "d \<noteq> 0xFF0C"
          using space_run_next [OF _ True Cons] "1.prems" \<open>s = c # cs\<close> by simp
        ultimately show ?thesis
          using Cons by (simp add: collapse_other comma_tight_def)
      qed
      with ih show ?thesis
        using Cons True by (simp add: collapse_space successively_Cons)
    next
      case False
      have "length cs < length s" using Cons by simp
      with "1.IH" tail have ih: "successively comma_tight (collapse_spaces cs)" by blast
      have "collapse_spaces cs = [] \<or> comma_tight c (hd (collapse_spaces cs))"
      proof (cases "cs = []")
        case True
        then show ?thesis by (simp add: collapse_Nil)
      next
        case ne: False
        with "1.prems" Cons have "comma_tight c (hd cs)"
          by (auto simp: successively_Cons)
        with False collapse_hd [OF ne] show ?thesis
          by (auto simp: comma_tight_def)
      qed
      with ih show ?thesis
        using Cons False by (simp add: collapse_other successively_Cons)
    qed
  qed
qed

lemma collapse_fix:
  "\<forall>x \<in> set s. is_space x \<longrightarrow> x = 32 \<Longrightarrow> successively single_spaced s
     \<Longrightarrow> collapse_spaces s = s"
proof (induction s)
  case Nil
  then show ?case by (simp add: collapse_Nil)
next
  case (Cons c cs)
  from Cons.prems have tail: "successively single_spaced cs"
    and nxt: "cs = [] \<or> single_spaced c (hd cs)"
    by (auto simp: successively_Cons)
  from Cons.IH Cons.prems(1) tail have ih: "collapse_spaces cs = cs" by simp
  show ?case
  proof (cases "is_space c")
    case True
    with Cons.prems(1) have c: "c = 32" by simp
    from nxt True have "dropWhile is_space cs = cs"
      by (cases cs) (auto simp: single_spaced_def)
    with True c ih show ?thesis by (simp add: collapse_space)
  next
    case False
    with ih show ?thesis by (simp add: collapse_other)
  qed
qed


subsection \<open>Fusing punctuation\<close>

lemma punct_ahead_space: "is_space c \<Longrightarrow> punct_ahead (c # cs) = punct_ahead cs"
  by (simp add: punct_ahead_def)

lemma punct_ahead_other: "\<not> is_space c \<Longrightarrow> punct_ahead (c # cs) = is_cjk_punct c"
  by (simp add: punct_ahead_def)

lemma punct_ahead_punct: "is_cjk_punct c \<Longrightarrow> punct_ahead (c # cs)"
  by (simp add: punct_ahead_other punct_not_space)

lemma after_punct_other: "\<not> is_space c \<Longrightarrow> after_punct (c # cs) = dropWhile is_space cs"
  by (simp add: after_punct_def)

lemma after_punct_set: "x \<in> set (after_punct s) \<Longrightarrow> x \<in> set s"
proof -
  assume "x \<in> set (after_punct s)"
  then have "x \<in> set (tl (dropWhile is_space s))"
    unfolding after_punct_def by (rule set_dropWhileD)
  then have "x \<in> set (dropWhile is_space s)"
    by (cases "dropWhile is_space s") simp_all
  then show ?thesis by (rule set_dropWhileD)
qed

lemma after_punct_hd: "after_punct s \<noteq> [] \<Longrightarrow> \<not> is_space (hd (after_punct s))"
  unfolding after_punct_def by (rule hd_dropWhile)

lemma fuse_hd:
  "s \<noteq> [] \<Longrightarrow>
     fuse_punct s \<noteq> [] \<and> hd (fuse_punct s) = (if punct_ahead s then 0xFF0C else hd s)"
  by (cases s) (auto simp: fuse_match fuse_other)

lemma fuse_set:
  "x \<in> set (fuse_punct s) \<Longrightarrow> x = 0xFF0C \<or> (x \<in> set s \<and> \<not> is_cjk_punct x)"
proof (induction s rule: length_induct)
  case (1 s)
  show ?case
  proof (cases s)
    case Nil
    with "1.prems" show ?thesis by (simp add: fuse_Nil)
  next
    case (Cons c cs)
    show ?thesis
    proof (cases "punct_ahead s")
      case True
      let ?t = "after_punct s"
      have "length ?t < length s" using Cons length_after_punct [of c cs] by simp
      with "1.IH" have ih: "x \<in> set (fuse_punct ?t) \<Longrightarrow>
          x = 0xFF0C \<or> (x \<in> set ?t \<and> \<not> is_cjk_punct x)"
        by blast
      from "1.prems" Cons True have "x = 0xFF0C \<or> x \<in> set (fuse_punct ?t)"
        by (simp add: fuse_match)
      with ih show ?thesis using after_punct_set [of x s] by auto
    next
      case False
      have "length cs < length s" using Cons by simp
      with "1.IH" have ih: "x \<in> set (fuse_punct cs) \<Longrightarrow>
          x = 0xFF0C \<or> (x \<in> set cs \<and> \<not> is_cjk_punct x)"
        by blast
      from False Cons have "\<not> is_cjk_punct c" using punct_ahead_punct by blast
      moreover from "1.prems" Cons False have "x = c \<or> x \<in> set (fuse_punct cs)"
        by (simp add: fuse_other)
      ultimately show ?thesis using ih Cons by auto
    qed
  qed
qed

lemma fuse_comma_tight: "successively comma_tight (fuse_punct s)"
proof (induction s rule: length_induct)
  case (1 s)
  show ?case
  proof (cases s)
    case Nil
    then show ?thesis by (simp add: fuse_Nil)
  next
    case (Cons c cs)
    show ?thesis
    proof (cases "punct_ahead s")
      case True
      let ?t = "after_punct s"
      have "length ?t < length s" using Cons length_after_punct [of c cs] by simp
      with "1.IH" have ih: "successively comma_tight (fuse_punct ?t)" by blast
      have "fuse_punct ?t = [] \<or> comma_tight 0xFF0C (hd (fuse_punct ?t))"
      proof (cases "?t = []")
        case True
        then show ?thesis by (simp add: fuse_Nil)
      next
        case False
        then have "\<not> is_space (hd ?t)" by (rule after_punct_hd)
        with fuse_hd [OF False] show ?thesis
          by (auto simp: comma_tight_def not_space_comma)
      qed
      with ih show ?thesis
        using Cons True by (simp add: fuse_match successively_Cons)
    next
      case False
      have "length cs < length s" using Cons by simp
      with "1.IH" have ih: "successively comma_tight (fuse_punct cs)" by blast
      from False Cons have c_not_punct: "\<not> is_cjk_punct c" using punct_ahead_punct by blast
      then have c_not_comma: "c \<noteq> 0xFF0C" using punct_comma by auto
      have "fuse_punct cs = [] \<or> comma_tight c (hd (fuse_punct cs))"
      proof (cases "cs = []")
        case True
        then show ?thesis by (simp add: fuse_Nil)
      next
        case ne: False
        show ?thesis
        proof (cases "punct_ahead cs")
          case True
          have "\<not> is_space c"
          proof
            assume "is_space c"
            then have "punct_ahead (c # cs) = punct_ahead cs" by (rule punct_ahead_space)
            with True False Cons show False by simp
          qed
          with True fuse_hd [OF ne] c_not_comma show ?thesis
            by (simp add: comma_tight_def)
        next
          case nc: False
          obtain x xs where cs: "cs = x # xs" using ne by (cases cs) auto
          have "x \<noteq> 0xFF0C"
          proof
            assume "x = 0xFF0C"
            then have "punct_ahead (x # xs)" using punct_ahead_punct punct_comma by simp
            with nc cs show False by simp
          qed
          with nc fuse_hd [OF ne] c_not_comma cs show ?thesis
            by (simp add: comma_tight_def)
        qed
      qed
      with ih show ?thesis
        using Cons False by (simp add: fuse_other successively_Cons)
    qed
  qed
qed

lemma fuse_fix:
  "\<forall>x \<in> set s. is_cjk_punct x \<longrightarrow> x = 0xFF0C \<Longrightarrow> successively comma_tight s
     \<Longrightarrow> fuse_punct s = s"
proof (induction s)
  case Nil
  then show ?case by (simp add: fuse_Nil)
next
  case (Cons c cs)
  from Cons.prems have tail: "successively comma_tight cs"
    and nxt: "cs = [] \<or> comma_tight c (hd cs)"
    by (auto simp: successively_Cons)
  from Cons.IH Cons.prems(1) tail have ih: "fuse_punct cs = cs" by simp
  show ?case
  proof (cases "is_space c")
    case True
    have "\<not> punct_ahead (c # cs)"
    proof
      assume "punct_ahead (c # cs)"
      with True have "punct_ahead cs" by (simp add: punct_ahead_space)
      then obtain d r where d: "dropWhile is_space cs = d # r" "is_cjk_punct d"
        by (auto simp: punct_ahead_def split: list.splits)
      then have "d \<in> set cs" using set_dropWhileD [of d is_space cs] by simp
      with Cons.prems(1) d(2) have "d = 0xFF0C" by simp
      with space_run_next [OF Cons.prems(2) True d(1)] show False by simp
    qed
    with ih show ?thesis by (simp add: fuse_other)
  next
    case False
    show ?thesis
    proof (cases "is_cjk_punct c")
      case True
      with Cons.prems(1) have c: "c = 0xFF0C" by simp
      from nxt c have "dropWhile is_space cs = cs"
        by (cases cs) (auto simp: comma_tight_def)
      with True False ih c show ?thesis
        using fuse_match [of c cs] by (simp add: punct_ahead_other after_punct_other)
    next
      case np: False
      with False have "\<not> punct_ahead (c # cs)" by (simp add: punct_ahead_other)
      with ih show ?thesis by (simp add: fuse_other)
    qed
  qed
qed

subsection \<open>Normal forms\<close>

text \<open>
  The result of \<open>_clean_text\<close> is always \<open>normalized\<close>, and \<open>_clean_text\<close> leaves every
  \<open>normalized\<close> string as it is: each of its five steps is the identity there.
\<close>

lemma u_space: "u '' '' = [32]"
  by (simp add: u_def)

lemma clean_text_unfold:
  "s \<noteq> [] \<Longrightarrow> RAGOptimizer_clean_text U s
     = strip (collapse_spaces (fuse_punct (mask_artifacts U (collapse_spaces (strip s)))))"
  by (simp add: RAGOptimizer_clean_text_def Let_def u_space)

lemma clean_text_normalized: "normalized U (RAGOptimizer_clean_text U s)"
proof (cases "s = []")
  case True
  then show ?thesis by (simp add: RAGOptimizer_clean_text_def normalized_def)
next
  case False
  let ?s2 = "mask_artifacts U (collapse_spaces (strip s))"
  let ?s3 = "fuse_punct ?s2"
  let ?s4 = "collapse_spaces ?s3"
  let ?s5 = "strip ?s4"
  have k2: "\<forall>x \<in> set ?s2. kept_char U x"
    by (auto simp: mask_artifacts_map kept_space is_space_32)
  have k3: "\<forall>x \<in> set ?s3. kept_char U x \<and> (is_cjk_punct x \<longrightarrow> x = 0xFF0C)"
    using fuse_set [of _ ?s2] k2 kept_comma [of U] by blast
  have k4: "\<forall>x \<in> set ?s4. kept_char U x \<and> (is_cjk_punct x \<longrightarrow> x = 0xFF0C)
              \<and> (is_space x \<longrightarrow> x = 32)"
    using collapse_set [of _ ?s3] k3 kept_space [of 32 U] is_space_32 not_punct_32 by blast
  have k5: "\<forall>x \<in> set ?s5. kept_char U x \<and> (is_cjk_punct x \<longrightarrow> x = 0xFF0C)
              \<and> (is_space x \<longrightarrow> x = 32)"
    using strip_set [of _ ?s4] k4 by blast
  have "successively comma_tight ?s4"
    by (intro collapse_comma_tight fuse_comma_tight)
  then have c5: "successively comma_tight ?s5" by (rule strip_successively)
  have "successively single_spaced ?s4" by (rule collapse_single_spaced)
  then have s5: "successively single_spaced ?s5" by (rule strip_successively)
  have e5: "?s5 = [] \<or> (\<not> is_space (hd ?s5) \<and> \<not> is_space (last ?s5))"
    using strip_ends [of ?s4] by blast
  have "list_all (\<lambda>c. kept_char U c \<and> (is_space c = (c = 32))
          \<and> (is_cjk_punct c = (c = 0xFF0C))) ?s5"
    unfolding list_all_iff using k5 is_space_32 punct_comma by blast
  with c5 s5 e5 have "normalized U ?s5" unfolding normalized_def by blast
  then show ?thesis by (simp only: clean_text_unfold [OF False])
qed

lemma clean_text_fixed:
  assumes "normalized U s"
  shows "RAGOptimizer_clean_text U s = s"
proof (cases "s = []")
  case True
  then show ?thesis by (simp add: RAGOptimizer_clean_text_def)
next
  case False
  from assms have all: "\<forall>c \<in> set s. kept_char U c \<and> (is_space c = (c = 32))
          \<and> (is_cjk_punct c = (c = 0xFF0C))"
    and ct: "successively comma_tight s" and ss: "successively single_spaced s"
    and ends: "\<not> is_space (hd s)" "\<not> is_space (last s)"
    using False unfolding normalized_def list_all_iff by blast+
  have 1: "strip s = s" using False ends by (rule strip_id)
  have 2: "collapse_spaces s = s" using all ss by (intro collapse_fix) auto
  have 3: "mask_artifacts U s = s" using all by (simp add: mask_artifacts_map map_idI)
  have 4: "fuse_punct s = s" using all ct by (intro fuse_fix) auto
  show ?thesis by (simp only: clean_text_unfold [OF False] 1 2 3 4)
qed

lemma clean_text_blank:
  assumes "list_all is_space s"
  shows "RAGOptimizer_clean_text U s = []"
proof -
  have "dropWhile is_space s = []" using assms by (simp add: list_all_iff)
  then have "strip s = []" by (simp only: strip_def lstrip_def rstrip_def) simp
  moreover have "strip [] = []" by (simp add: strip_def lstrip_def rstrip_def)
  ultimately show ?thesis
    by (simp add: RAGOptimizer_clean_text_def Let_def re_sub_Nil)
qed

text \<open>
  C3. The text normaliser is idempotent: normalising a normalised string changes nothing,
  for every input string. The empty string is mapped to the empty string; no step of the
  function can fail on a string.
\<close>

theorem clean_text_idempotent:
  "RAGOptimizer_clean_text U (RAGOptimizer_clean_text U x) = RAGOptimizer_clean_text U x
   \<and> RAGOptimizer_clean_text U [] = []"
proof
  show "RAGOptimizer_clean_text U (RAGOptimizer_clean_text U x) = RAGOptimizer_clean_text U x"
    using clean_text_normalized by (rule clean_text_fixed)
  show "RAGOptimizer_clean_text U [] = []"
    by (simp add: RAGOptimizer_clean_text_def)
qed

end
